theory Spec2Isabelle
  imports Main
begin

section \<open>GDB/MI values and records (types/gdb.ts)\<close>

text \<open>
  \<^verbatim>\<open>MIValue = string | MITuple | MIList\<close>, with
  \<^verbatim>\<open>MITuple = { type: 'tuple', results: MIResult[] }\<close>,
  \<^verbatim>\<open>MIList = { type: 'list', values: MIValue[] }\<close> and
  \<^verbatim>\<open>MIResult = { variable: string, value: MIValue }\<close>.
  Strings are lists of 8-bit characters; a JavaScript string is a list of 16-bit code
  units, and every character the codec tests for is below 128.
\<close>

datatype MIValue =
    MIString string
  | MITuple "(string \<times> MIValue) list"
  | MIList "MIValue list"

type_synonym MIResult = "string \<times> MIValue"

datatype MIRecordType = Result | Exec | Status | Notify | Console | Target | Log

text \<open>
  \<^verbatim>\<open>MIRecord\<close>: every field but the type is optional (\<^verbatim>\<open>undefined\<close> is \<open>None\<close>).
  The fields \<^verbatim>\<open>type\<close>, \<^verbatim>\<open>class\<close> and \<^verbatim>\<open>output\<close> are \<open>rtype\<close>, \<open>klass\<close> and
  \<open>outputText\<close> here.
\<close>

record MIRecord =
  rtype :: MIRecordType
  token :: "nat option"
  klass :: "string option"
  results :: "MIResult list option"
  outputText :: "string option"

section \<open>Characters and string helpers of the JavaScript runtime\<close>

abbreviation backslash :: char where "backslash \<equiv> CHR 0x5C"
abbreviation dquote :: char where "dquote \<equiv> CHR 0x22"
abbreviation newline :: char where "newline \<equiv> CHR 0x0A"
abbreviation creturn :: char where "creturn \<equiv> CHR 0x0D"
abbreviation tabchar :: char where "tabchar \<equiv> CHR 0x09"

definition charCode :: "char \<Rightarrow> nat" where
  "charCode c = of_char c"

definition isDigit :: "char \<Rightarrow> bool" where
  "isDigit c = (48 \<le> charCode c \<and> charCode c \<le> 57)"

definition isLower :: "char \<Rightarrow> bool" where
  "isLower c = (97 \<le> charCode c \<and> charCode c \<le> 122)"

definition isUpper :: "char \<Rightarrow> bool" where
  "isUpper c = (65 \<le> charCode c \<and> charCode c \<le> 90)"

text \<open>The character classes of the three regular expressions of the codec.\<close>

definition isNameStart :: "char \<Rightarrow> bool" where
  "isNameStart c = (isLower c \<or> isUpper c \<or> c = CHR ''_'')"

definition isNameChar :: "char \<Rightarrow> bool" where
  "isNameChar c = (isLower c \<or> isUpper c \<or> isDigit c \<or> c = CHR ''_'' \<or> c = CHR ''-'')"

definition isClassChar :: "char \<Rightarrow> bool" where
  "isClassChar c = (isLower c \<or> c = CHR ''-'')"

text \<open>
  What \<^verbatim>\<open>String.prototype.trim\<close> strips, among the characters below 256: tab, line
  feed, vertical tab, form feed, carriage return, space and the no-break space.
\<close>

definition isTrimSpace :: "char \<Rightarrow> bool" where
  "isTrimSpace c = (charCode c \<in> {9, 10, 11, 12, 13, 32, 160})"

definition trimJS :: "string \<Rightarrow> string" where
  "trimJS s = rev (dropWhile isTrimSpace (rev (dropWhile isTrimSpace s)))"

text \<open>The dot of a JavaScript regular expression matches no line terminator.\<close>

definition noLineTerminator :: "string \<Rightarrow> bool" where
  "noLineTerminator s = (newline \<notin> set s \<and> creturn \<notin> set s)"

text \<open>\<^verbatim>\<open>parseInt(digits, 10)\<close> on a run of decimal digits.\<close>

definition digitsToNat :: "string \<Rightarrow> nat" where
  "digitsToNat ds = foldl (\<lambda>acc c. 10 * acc + (charCode c - 48)) 0 ds"

text \<open>
  \<^verbatim>\<open>str.replace(/ab/g, r)\<close> for a pattern of two literal characters: every match,
  left to right, without overlap.
\<close>

fun replaceAll2 :: "char \<Rightarrow> char \<Rightarrow> string \<Rightarrow> string \<Rightarrow> string" where
  "replaceAll2 a b r (x # y # zs) =
     (if x = a \<and> y = b then r @ replaceAll2 a b r zs
      else x # replaceAll2 a b r (y # zs))"
| "replaceAll2 a b r xs = xs"

section \<open>The GDB/MI codec (class GDBMI)\<close>

text \<open>
  \<^verbatim>\<open>unescapeString\<close>: five global replacements, one after the other, in the order of
  the source.
\<close>

definition unescapeString :: "string \<Rightarrow> string" where
  "unescapeString str =
     replaceAll2 backslash backslash [backslash]
       (replaceAll2 backslash dquote [dquote]
         (replaceAll2 backslash (CHR ''t'') [tabchar]
           (replaceAll2 backslash (CHR ''r'') [creturn]
             (replaceAll2 backslash (CHR ''n'') [newline] str))))"

text \<open>
  The regular expression \<^verbatim>\<open>/^([a-zA-Z_][a-zA-Z0-9_-]*)=/\<close> on a string: the name
  (group 1) and the length of the whole match. The star is greedy and \<^verbatim>\<open>=\<close> is not
  a name character, so the name is the longest run.
\<close>

definition matchName :: "string \<Rightarrow> (string \<times> nat) option" where
  "matchName s =
     (case s of
        [] \<Rightarrow> None
      | c # cs \<Rightarrow>
          if isNameStart c then
            (case dropWhile isNameChar cs of
               [] \<Rightarrow> None
             | d # _ \<Rightarrow>
                 if d = CHR ''='' then
                   Some (c # takeWhile isNameChar cs, Suc (Suc (length (takeWhile isNameChar cs))))
                 else None)
          else None)"

text \<open>
  The inner loop \<^verbatim>\<open>while (i < str.length && (str[i] === ' ' || str[i] === ',')) i++\<close>.
\<close>

function skipSep :: "string \<Rightarrow> nat \<Rightarrow> nat" where
  "skipSep str i =
     (if i < length str \<and> (str ! i = CHR '' '' \<or> str ! i = CHR '','')
      then skipSep str (Suc i) else i)"
  by pat_completeness auto
termination
  by (relation "measure (\<lambda>(str, i). length str - i)") auto

declare skipSep.simps [simp del]

text \<open>
  The string branch of \<^verbatim>\<open>parseValue\<close>, from the character after the opening quote.
  A backslash sets \<^verbatim>\<open>escaped\<close> and is not copied; the character after it is copied
  as it is. At the closing quote the collected text goes through
  \<^verbatim>\<open>unescapeString\<close>; at the end of the input it is returned as it is.
\<close>

function stringLoop :: "string \<Rightarrow> nat \<Rightarrow> bool \<Rightarrow> string \<Rightarrow> MIValue \<times> nat" where
  "stringLoop str i escaped val =
     (if i < length str then
        (if escaped then stringLoop str (Suc i) False (val @ [str ! i])
         else if str ! i = backslash then stringLoop str (Suc i) True val
         else if str ! i = dquote then (MIString (unescapeString val), Suc i)
         else stringLoop str (Suc i) False (val @ [str ! i]))
      else (MIString val, i))"
  by pat_completeness auto
termination
  by (relation "measure (\<lambda>(str, i, escaped, val). length str - i)") auto

declare stringLoop.simps [simp del]

text \<open>The fallback branch: the text up to the next comma, brace or bracket, trimmed.\<close>

function fallbackLoop :: "string \<Rightarrow> nat \<Rightarrow> string \<Rightarrow> MIValue \<times> nat" where
  "fallbackLoop str i val =
     (if i < length str \<and> str ! i \<noteq> CHR '','' \<and> str ! i \<noteq> CHR ''}'' \<and> str ! i \<noteq> CHR '']''
      then fallbackLoop str (Suc i) (val @ [str ! i])
      else (MIString (trimJS val), i))"
  by pat_completeness auto
termination
  by (relation "measure (\<lambda>(str, i, val). length str - i)") auto

declare fallbackLoop.simps [simp del]

text \<open>
  \<^verbatim>\<open>parseValue(str, startIndex)\<close> with the loops of its tuple and list branches.
  The tuple loop has no bound in the source, so the three functions take fuel: one unit
  for each call and each loop iteration, and \<open>None\<close> when it runs out. The result is the
  value and \<^verbatim>\<open>endIndex\<close>.

  The tuple loop, at \<^verbatim>\<open>while (i < str.length && str[i] !== '}')\<close>: skip separators,
  leave at the end of input or at the closing brace, and parse \<^verbatim>\<open>name=value\<close> when
  the name matches; when it does not match, the body changes nothing and the loop goes
  round again. The list loop is the same with \<^verbatim>\<open>]\<close>, parses an unnamed element as a
  bare value, wraps a named one in a tuple of one field, and leaves when the index has
  not moved (\<^verbatim>\<open>if (i === prevIndex) break\<close>), after the element has been pushed.
\<close>

fun parseValue :: "nat \<Rightarrow> string \<Rightarrow> nat \<Rightarrow> (MIValue \<times> nat) option"
  and tupleLoop :: "nat \<Rightarrow> string \<Rightarrow> nat \<Rightarrow> MIResult list \<Rightarrow> (MIValue \<times> nat) option"
  and listLoop :: "nat \<Rightarrow> string \<Rightarrow> nat \<Rightarrow> MIValue list \<Rightarrow> (MIValue \<times> nat) option"
where
  "parseValue 0 str i = None"
| "parseValue (Suc n) str i =
     (if i < length str \<and> str ! i = dquote then Some (stringLoop str (Suc i) False [])
      else if i < length str \<and> str ! i = CHR ''{'' then tupleLoop n str (Suc i) []
      else if i < length str \<and> str ! i = CHR ''['' then listLoop n str (Suc i) []
      else Some (fallbackLoop str i []))"
| "tupleLoop 0 str i res = None"
| "tupleLoop (Suc n) str i res =
     (if i < length str \<and> str ! i \<noteq> CHR ''}'' then
        (if length str \<le> skipSep str i \<or> str ! (skipSep str i) = CHR ''}''
         then Some (MITuple res, Suc (skipSep str i))
         else
           (case matchName (drop (skipSep str i) str) of
              Some (variable, len) \<Rightarrow>
                (case parseValue n str (skipSep str i + len) of
                   None \<Rightarrow> None
                 | Some (v, endIndex) \<Rightarrow> tupleLoop n str endIndex (res @ [(variable, v)]))
            | None \<Rightarrow> tupleLoop n str (skipSep str i) res))
      else Some (MITuple res, Suc i))"
| "listLoop 0 str i vals = None"
| "listLoop (Suc n) str i vals =
     (if i < length str \<and> str ! i \<noteq> CHR '']'' then
        (if length str \<le> skipSep str i \<or> str ! (skipSep str i) = CHR '']''
         then Some (MIList vals, Suc (skipSep str i))
         else
           (case matchName (drop (skipSep str i) str) of
              Some (variable, len) \<Rightarrow>
                (case parseValue n str (skipSep str i + len) of
                   None \<Rightarrow> None
                 | Some (v, endIndex) \<Rightarrow>
                     if endIndex = skipSep str i
                     then Some (MIList (vals @ [MITuple [(variable, v)]]), Suc endIndex)
                     else listLoop n str endIndex (vals @ [MITuple [(variable, v)]]))
            | None \<Rightarrow>
                (case parseValue n str (skipSep str i) of
                   None \<Rightarrow> None
                 | Some (v, endIndex) \<Rightarrow>
                     if endIndex = skipSep str i
                     then Some (MIList (vals @ [v]), Suc endIndex)
                     else listLoop n str endIndex (vals @ [v]))))
      else Some (MIList vals, Suc i))"

text \<open>
  \<^verbatim>\<open>parseResults(str)\<close>: the top-level field list. It leaves its loop when no name
  matches.
\<close>

fun parseResultsLoop :: "nat \<Rightarrow> string \<Rightarrow> nat \<Rightarrow> MIResult list \<Rightarrow> MIResult list option" where
  "parseResultsLoop 0 str i res = None"
| "parseResultsLoop (Suc n) str i res =
     (if i < length str then
        (if length str \<le> skipSep str i then Some res
         else
           (case matchName (drop (skipSep str i) str) of
              None \<Rightarrow> Some res
            | Some (variable, len) \<Rightarrow>
                (case parseValue n str (skipSep str i + len) of
                   None \<Rightarrow> None
                 | Some (v, endIndex) \<Rightarrow> parseResultsLoop n str endIndex (res @ [(variable, v)]))))
      else Some res)"

definition parseResults :: "nat \<Rightarrow> string \<Rightarrow> MIResult list option" where
  "parseResults fuel str = parseResultsLoop fuel str 0 []"

text \<open>
  The three line-level regular expressions. \<^verbatim>\<open>/^(\d+)(.*)$/\<close> gives the token and
  the rest; \<^verbatim>\<open>/^\^([a-z-]+),?(.*)$/\<close> and \<^verbatim>\<open>/^[*+=]([a-z-]+),?(.*)$/\<close> give the
  class and the field text; \<^verbatim>\<open>/^[~@&]"(.*)"$/\<close> gives the text between the first
  quote and the last character, which must be a quote. In each, \<^verbatim>\<open>(.*)$\<close> asks that
  no line terminator follows.
\<close>

definition tokenMatch :: "string \<Rightarrow> (nat \<times> string) option" where
  "tokenMatch s =
     (if takeWhile isDigit s \<noteq> [] \<and> noLineTerminator (dropWhile isDigit s)
      then Some (digitsToNat (takeWhile isDigit s), dropWhile isDigit s)
      else None)"

definition classMatch :: "string \<Rightarrow> (string \<times> string) option" where
  "classMatch s =
     (if takeWhile isClassChar s = [] then None
      else
        (case dropWhile isClassChar s of
           [] \<Rightarrow> Some (takeWhile isClassChar s, [])
         | c # cs \<Rightarrow>
             if c = CHR '','' then
               (if noLineTerminator cs then Some (takeWhile isClassChar s, cs) else None)
             else
               (if noLineTerminator (c # cs) then Some (takeWhile isClassChar s, c # cs)
                else None)))"

definition resultMatch :: "string \<Rightarrow> (string \<times> string) option" where
  "resultMatch line =
     (case line of
        [] \<Rightarrow> None
      | c # s \<Rightarrow> if c = CHR ''^'' then classMatch s else None)"

definition asyncMatch :: "string \<Rightarrow> (string \<times> string) option" where
  "asyncMatch line =
     (case line of
        [] \<Rightarrow> None
      | c # s \<Rightarrow> if c = CHR ''*'' \<or> c = CHR ''+'' \<or> c = CHR ''='' then classMatch s else None)"

definition streamMatch :: "string \<Rightarrow> string option" where
  "streamMatch line =
     (case line of
        c # q # s \<Rightarrow>
          if (c = CHR ''~'' \<or> c = CHR ''@'' \<or> c = CHR ''&'') \<and> q = dquote \<and> s \<noteq> []
             \<and> last s = dquote \<and> noLineTerminator (butlast s)
          then Some (butlast s) else None
      | _ \<Rightarrow> None)"

text \<open>
  \<^verbatim>\<open>parseResultRecord\<close> and \<^verbatim>\<open>parseAsyncRecord\<close>: without a match the record has
  its type and token only; with an empty field text the field list is empty and the
  field parser is not called. \<open>None\<close> is the field parser running out of fuel.
\<close>

definition parseResultRecord :: "nat \<Rightarrow> string \<Rightarrow> nat option \<Rightarrow> MIRecord option" where
  "parseResultRecord fuel line tok =
     (case resultMatch line of
        None \<Rightarrow>
          Some \<lparr>rtype = Result, token = tok, klass = None, results = None, outputText = None\<rparr>
      | Some (resultClass, resultsStr) \<Rightarrow>
          (case (if resultsStr \<noteq> [] then parseResults fuel resultsStr else Some []) of
             None \<Rightarrow> None
           | Some rs \<Rightarrow>
               Some \<lparr>rtype = Result, token = tok, klass = Some resultClass,
                     results = Some rs, outputText = None\<rparr>))"

definition parseAsyncRecord ::
  "nat \<Rightarrow> string \<Rightarrow> MIRecordType \<Rightarrow> nat option \<Rightarrow> MIRecord option" where
  "parseAsyncRecord fuel line ty tok =
     (case asyncMatch line of
        None \<Rightarrow>
          Some \<lparr>rtype = ty, token = tok, klass = None, results = None, outputText = None\<rparr>
      | Some (asyncClass, resultsStr) \<Rightarrow>
          (case (if resultsStr \<noteq> [] then parseResults fuel resultsStr else Some []) of
             None \<Rightarrow> None
           | Some rs \<Rightarrow>
               Some \<lparr>rtype = ty, token = tok, klass = Some asyncClass,
                     results = Some rs, outputText = None\<rparr>))"

definition parseStreamRecord :: "string \<Rightarrow> MIRecordType \<Rightarrow> MIRecord" where
  "parseStreamRecord line ty =
     (case streamMatch line of
        None \<Rightarrow>
          \<lparr>rtype = ty, token = None, klass = None, results = None,
           outputText = Some (drop 1 line)\<rparr>
      | Some body \<Rightarrow>
          \<lparr>rtype = ty, token = None, klass = None, results = None,
           outputText = Some (unescapeString body)\<rparr>)"

definition startsWithChar :: "char \<Rightarrow> string \<Rightarrow> bool" where
  "startsWithChar c s = (case s of [] \<Rightarrow> False | x # _ \<Rightarrow> x = c)"

text \<open>
  \<^verbatim>\<open>parseLine(line)\<close>. The outer \<open>option\<close> is the fuel of the field parser; the inner
  one is the source's \<^verbatim>\<open>MIRecord | null\<close>.
\<close>

definition parseLine :: "nat \<Rightarrow> string \<Rightarrow> MIRecord option option" where
  "parseLine fuel line =
     (if line = [] \<or> trimJS line = [] then Some None
      else
        (let trimmed = trimJS line;
             tok = map_option fst (tokenMatch trimmed);
             rest = (case tokenMatch trimmed of None \<Rightarrow> trimmed | Some (t, r) \<Rightarrow> r)
         in
           if startsWithChar (CHR ''^'') rest then
             map_option Some (parseResultRecord fuel rest tok)
           else if startsWithChar (CHR ''*'') rest then
             map_option Some (parseAsyncRecord fuel rest Exec tok)
           else if startsWithChar (CHR ''+'') rest then
             map_option Some (parseAsyncRecord fuel rest Status tok)
           else if startsWithChar (CHR ''='') rest then
             map_option Some (parseAsyncRecord fuel rest Notify tok)
           else if startsWithChar (CHR ''~'') rest then
             Some (Some (parseStreamRecord rest Console))
           else if startsWithChar (CHR ''@'') rest then
             Some (Some (parseStreamRecord rest Target))
           else if startsWithChar (CHR ''&'') rest then
             Some (Some (parseStreamRecord rest Log))
           else if rest = ''(gdb)'' then Some None
           else Some None))"

text \<open>\<^verbatim>\<open>findResult\<close>, \<^verbatim>\<open>getStringValue\<close>, \<^verbatim>\<open>getTuple\<close> and \<^verbatim>\<open>getList\<close>.\<close>

definition findResult :: "MIResult list option \<Rightarrow> string \<Rightarrow> MIValue option" where
  "findResult rs variable =
     (case rs of
        None \<Rightarrow> None
      | Some l \<Rightarrow> map_option snd (find (\<lambda>r. fst r = variable) l))"

definition getStringValue :: "MIValue option \<Rightarrow> string option" where
  "getStringValue v = (case v of Some (MIString s) \<Rightarrow> Some s | _ \<Rightarrow> None)"

definition getTuple :: "MIValue option \<Rightarrow> MIResult list option" where
  "getTuple v = (case v of Some (MITuple fs) \<Rightarrow> Some fs | _ \<Rightarrow> None)"

definition getList :: "MIValue option \<Rightarrow> MIValue list option" where
  "getList v = (case v of Some (MIList vs) \<Rightarrow> Some vs | _ \<Rightarrow> None)"

text \<open>
  The escaping that \<^verbatim>\<open>unescapeString\<close> is meant to undo, as the specification words
  it: each of line feed, carriage return, tab, double quote and backslash becomes its
  two-character escape sequence, every other character stays. The repository has no
  such function; this one is the specification's.
\<close>

definition escapeChar :: "char \<Rightarrow> string" where
  "escapeChar c =
     (if c = newline then [backslash, CHR ''n'']
      else if c = creturn then [backslash, CHR ''r'']
      else if c = tabchar then [backslash, CHR ''t'']
      else if c = dquote then [backslash, dquote]
      else if c = backslash then [backslash, backslash]
      else [c])"

definition escapeString :: "string \<Rightarrow> string" where
  "escapeString s = concat (map escapeChar s)"

section \<open>Path mapping (class PathMapper)\<close>

text \<open>
  The two tables are JavaScript \<^verbatim>\<open>Map\<close>s, iterated in insertion order: association
  lists. \<^verbatim>\<open>Map.set\<close> replaces the value of a key that is present, in place, and
  appends a new key.
\<close>

fun jsMapSet :: "'k \<Rightarrow> 'v \<Rightarrow> ('k \<times> 'v) list \<Rightarrow> ('k \<times> 'v) list" where
  "jsMapSet k v [] = [(k, v)]"
| "jsMapSet k v ((k', v') # rest) =
     (if k' = k then (k, v) # rest else (k', v') # jsMapSet k v rest)"

record PathMapper =
  localToRemote :: "(string \<times> string) list"
  remoteToLocal :: "(string \<times> string) list"

text \<open>
  \<^verbatim>\<open>normalizePath\<close>: backslashes become slashes, and one trailing slash is removed
  from a path longer than one character.
\<close>

definition normalizePath :: "string \<Rightarrow> string" where
  "normalizePath p =
     (let normalized = map (\<lambda>c. if c = backslash then CHR ''/'' else c) p
      in if normalized \<noteq> [] \<and> last normalized = CHR ''/'' \<and> 1 < length normalized
         then take (length normalized - 1) normalized
         else normalized)"

text \<open>\<^verbatim>\<open>addMapping\<close>, on a local path whose workspace variables are resolved.\<close>

definition addMapping :: "string \<Rightarrow> string \<Rightarrow> PathMapper \<Rightarrow> PathMapper" where
  "addMapping resolvedLocal remotePath pm =
     \<lparr>localToRemote =
        jsMapSet (normalizePath resolvedLocal) (normalizePath remotePath) (localToRemote pm),
      remoteToLocal =
        jsMapSet (normalizePath remotePath) (normalizePath resolvedLocal) (remoteToLocal pm)\<rparr>"

definition startsWith :: "string \<Rightarrow> string \<Rightarrow> bool" where
  "startsWith pre s = (take (length pre) s = pre)"

text \<open>
  The loop of \<^verbatim>\<open>toRemotePath\<close> over the entries of \<^verbatim>\<open>localToRemote\<close>: the first
  entry, in table order, that the normalized path equals or extends by a slash decides
  the result. \<open>None\<close> is the loop ending without a \<^verbatim>\<open>return\<close>.
\<close>

fun toRemoteLoop :: "(string \<times> string) list \<Rightarrow> string \<Rightarrow> string option" where
  "toRemoteLoop [] normalized = None"
| "toRemoteLoop ((localP, remote) # rest) normalized =
     (if normalized = localP then Some remote
      else if startsWith (localP @ ''/'') normalized
      then Some (remote @ ''/'' @ drop (length localP + 1) normalized)
      else toRemoteLoop rest normalized)"

definition toRemotePath :: "PathMapper \<Rightarrow> string \<Rightarrow> string" where
  "toRemotePath pm localPath =
     (case toRemoteLoop (localToRemote pm) (normalizePath localPath) of
        Some r \<Rightarrow> r
      | None \<Rightarrow> localPath)"







section \<open>Stop events (GDBMI.parseStoppedEvent and parseStackFrame)\<close>

text \<open>
  A JavaScript number that comes out of \<^verbatim>\<open>parseInt(s, 10)\<close>: an integer or
  \<^verbatim>\<open>NaN\<close>. \<^verbatim>\<open>parseInt\<close> skips leading white space, reads an optional sign and the
  longest run of decimal digits, and gives \<^verbatim>\<open>NaN\<close> when there is no digit. Integers
  are unbounded here; the source's are exact below \<open>2^53\<close>.
\<close>

datatype JSNumber = NaN | Num int

definition parseIntJS :: "string \<Rightarrow> JSNumber" where
  "parseIntJS s =
     (let t = dropWhile isTrimSpace s;
          u = (if startsWithChar (CHR ''-'') t \<or> startsWithChar (CHR ''+'') t then drop 1 t else t);
          ds = takeWhile isDigit u
      in if ds = [] then NaN
         else if startsWithChar (CHR ''-'') t then Num (- int (digitsToNat ds))
         else Num (int (digitsToNat ds)))"

text \<open>
  \<^verbatim>\<open>x ? f(x) : d\<close> and \<^verbatim>\<open>x || d\<close> on an optional string: \<^verbatim>\<open>undefined\<close> and the
  empty string are both falsy.
\<close>

definition truthy :: "string option \<Rightarrow> bool" where
  "truthy x = (case x of None \<Rightarrow> False | Some s \<Rightarrow> s \<noteq> [])"

definition orElse :: "string option \<Rightarrow> string \<Rightarrow> string" where
  "orElse x d = (if truthy x then the x else d)"

definition parseIntIfTruthy :: "string option \<Rightarrow> JSNumber option" where
  "parseIntIfTruthy x = (if truthy x then Some (parseIntJS (the x)) else None)"

text \<open>The field \<^verbatim>\<open>file\<close> of a stack frame is \<open>fileName\<close> here.\<close>

record GDBStackFrame =
  level :: JSNumber
  addr :: string
  func :: string
  fileName :: "string option"
  fullname :: "string option"
  line :: "JSNumber option"

record GDBStoppedEvent =
  reason :: string
  threadId :: "JSNumber option"
  breakpointId :: "JSNumber option"
  signal :: "string option"
  exitCode :: "JSNumber option"
  frame :: "GDBStackFrame option"

definition parseStackFrame :: "MIResult list \<Rightarrow> GDBStackFrame" where
  "parseStackFrame fs =
     \<lparr>level =
        (if truthy (getStringValue (findResult (Some fs) ''level''))
         then parseIntJS (the (getStringValue (findResult (Some fs) ''level'')))
         else Num 0),
      addr = orElse (getStringValue (findResult (Some fs) ''addr'')) ''0x0'',
      func = orElse (getStringValue (findResult (Some fs) ''func'')) ''??'',
      fileName = getStringValue (findResult (Some fs) ''file''),
      fullname = getStringValue (findResult (Some fs) ''fullname''),
      line = parseIntIfTruthy (getStringValue (findResult (Some fs) ''line''))\<rparr>"

definition parseStoppedEvent :: "MIResult list \<Rightarrow> GDBStoppedEvent" where
  "parseStoppedEvent rs =
     \<lparr>reason = orElse (getStringValue (findResult (Some rs) ''reason'')) ''signal-received'',
      threadId = parseIntIfTruthy (getStringValue (findResult (Some rs) ''thread-id'')),
      breakpointId = parseIntIfTruthy (getStringValue (findResult (Some rs) ''bkptno'')),
      signal = getStringValue (findResult (Some rs) ''signal-name''),
      exitCode = parseIntIfTruthy (getStringValue (findResult (Some rs) ''exit-code'')),
      frame = map_option parseStackFrame (getTuple (findResult (Some rs) ''frame''))\<rparr>"

section \<open>The debug session (class RemoteGDBDebugSession)\<close>

text \<open>
  The session's fields that the handlers below read or write. A pending command is the
  pair of \<^verbatim>\<open>resolve\<close> and \<^verbatim>\<open>reject\<close> of one promise; it is the promise's number
  here, and a call of \<^verbatim>\<open>resolve\<close> or \<^verbatim>\<open>reject\<close> is an entry of \<open>settled\<close>.
  \<^verbatim>\<open>setTimeout\<close> is an entry of \<open>timers\<close> with its due time, \<^verbatim>\<open>sendEvent\<close> an entry
  of \<open>sentEvents\<close>, a write to the GDB channel an entry of \<open>channelWrites\<close>, and
  \<^verbatim>\<open>logger.info('Sending GDB command', ...)\<close> an entry of \<open>commandLog\<close>. Time is in
  milliseconds.
\<close>

datatype Outcome = Resolved MIRecord | Rejected string

datatype DapBreakpoint = Breakpoint bool int "int option"

datatype DapEvent =
    TerminatedEvent
  | StoppedEvent string nat
  | OutputEvent string string

record Session =
  gdbChannel :: bool
  pathMapper :: "PathMapper option"
  tokenCounter :: nat
  pendingCommands :: "nat \<rightharpoonup> nat"
  settled :: "(nat \<times> Outcome) list"
  timers :: "(nat \<times> nat \<times> string) list"
  clock :: nat
  channelWrites :: "string list"
  commandLog :: "(nat \<times> string) list"
  isRunning :: bool
  currentThreadId :: nat
  sentEvents :: "DapEvent list"
  gdbBreakpoints :: "string \<rightharpoonup> (int \<times> int) list"
  pendingBreakpoints :: "(string \<times> int list) list"
  breakpoints :: "string \<rightharpoonup> DapBreakpoint list"

definition sendEvent :: "DapEvent \<Rightarrow> Session \<Rightarrow> Session" where
  "sendEvent e s = s\<lparr>sentEvents := sentEvents s @ [e]\<rparr>"

definition resolve :: "nat \<Rightarrow> MIRecord \<Rightarrow> Session \<Rightarrow> Session" where
  "resolve promise r s = s\<lparr>settled := settled s @ [(promise, Resolved r)]\<rparr>"

definition reject :: "nat \<Rightarrow> string \<Rightarrow> Session \<Rightarrow> Session" where
  "reject promise msg s = s\<lparr>settled := settled s @ [(promise, Rejected msg)]\<rparr>"

text \<open>
  \<^verbatim>\<open>handleStopped\<close>: the two exit reasons it compares with end the session; every other
  reason gives a stopped event.
\<close>

definition handleStopped :: "GDBStoppedEvent \<Rightarrow> Session \<Rightarrow> Session" where
  "handleStopped event s =
     (if reason event = ''exited-normally'' \<or> reason event = ''exited''
      then sendEvent TerminatedEvent s
      else
        sendEvent
          (StoppedEvent
             (if reason event = ''breakpoint-hit'' then ''breakpoint''
              else if reason event = ''end-stepping-range'' then ''step''
              else if reason event = ''signal-received'' then ''exception''
              else ''pause'')
             (currentThreadId s))
          s)"

text \<open>\<^verbatim>\<open>handleMIRecord\<close>, the dispatcher of parsed records.\<close>

definition handleMIRecord :: "MIRecord \<Rightarrow> Session \<Rightarrow> Session" where
  "handleMIRecord r s =
     (case rtype r of
        Result \<Rightarrow>
          (case token r of
             None \<Rightarrow> s
           | Some t \<Rightarrow>
               (case pendingCommands s t of
                  None \<Rightarrow> s
                | Some pending \<Rightarrow>
                    (if klass r = Some ''done'' \<or> klass r = Some ''running''
                     then resolve pending r (s\<lparr>pendingCommands := (pendingCommands s)(t := None)\<rparr>)
                     else if klass r = Some ''error''
                     then reject pending
                            (orElse (getStringValue (findResult (results r) ''msg''))
                               ''GDB command failed'')
                            (s\<lparr>pendingCommands := (pendingCommands s)(t := None)\<rparr>)
                     else resolve pending r
                            (s\<lparr>pendingCommands := (pendingCommands s)(t := None)\<rparr>))))
      | Exec \<Rightarrow>
          (if klass r = Some ''stopped''
           then handleStopped
                  (parseStoppedEvent (case results r of None \<Rightarrow> [] | Some rs \<Rightarrow> rs))
                  (s\<lparr>isRunning := False\<rparr>)
           else if klass r = Some ''running'' then s\<lparr>isRunning := True\<rparr>
           else s)
      | Console \<Rightarrow>
          (if truthy (outputText r) then sendEvent (OutputEvent (the (outputText r)) ''stdout'') s
           else s)
      | Target \<Rightarrow>
          (if truthy (outputText r) then sendEvent (OutputEvent (the (outputText r)) ''stdout'') s
           else s)
      | Log \<Rightarrow> s
      | Status \<Rightarrow> s
      | Notify \<Rightarrow> s)"

text \<open>
  Decimal text of a number, as a template literal prints an integer. \<open>digitChar\<close> is
  only asked for a digit below 10.
\<close>

definition digitChar :: "nat \<Rightarrow> char" where
  "digitChar d = ''0123456789'' ! d"

function showNat :: "nat \<Rightarrow> string" where
  "showNat n =
     (if n < 10 then [digitChar n]
      else showNat (n div 10) @ [digitChar (n mod 10)])"
  by pat_completeness auto
termination
  by (relation "measure (\<lambda>n. n)") auto

declare showNat.simps [simp del]

definition showInt :: "int \<Rightarrow> string" where
  "showInt k = (if k < 0 then CHR ''-'' # showNat (nat (- k)) else showNat (nat k))"

text \<open>
  The line \<^verbatim>\<open>sendGDBCommand\<close> writes: the command is split at its first space, and
  the arguments are appended when they are not empty.
\<close>

definition fullCommand :: "nat \<Rightarrow> string \<Rightarrow> string" where
  "fullCommand tok command =
     (let cmd = takeWhile (\<lambda>c. c \<noteq> CHR '' '') command;
          args = drop (Suc (length cmd)) command
      in if args \<noteq> [] then showNat tok @ ''-'' @ cmd @ '' '' @ args
         else showNat tok @ ''-'' @ cmd)"

definition commandTimeoutMs :: nat where
  "commandTimeoutMs = 5000"

text \<open>
  \<^verbatim>\<open>sendGDBCommand\<close> up to the return of its promise: \<open>Inl\<close> is the exception without
  a channel; \<open>Inr\<close> carries the promise, which is numbered by its token.
\<close>

definition sendGDBCommand :: "string \<Rightarrow> Session \<Rightarrow> string + (nat \<times> Session)" where
  "sendGDBCommand command s =
     (if \<not> gdbChannel s then Inl ''GDB channel not available''
      else
        Inr (tokenCounter s,
             s\<lparr>tokenCounter := tokenCounter s + 1,
               commandLog := commandLog s @ [(tokenCounter s, command)],
               pendingCommands := (pendingCommands s)(tokenCounter s \<mapsto> tokenCounter s),
               timers := timers s @ [(clock s + commandTimeoutMs, tokenCounter s, command)],
               channelWrites :=
                 channelWrites s @ [fullCommand (tokenCounter s) command @ [newline]]\<rparr>))"

text \<open>The callback that \<^verbatim>\<open>sendGDBCommand\<close> hands to \<^verbatim>\<open>setTimeout\<close>.\<close>

definition commandTimeout :: "nat \<Rightarrow> string \<Rightarrow> Session \<Rightarrow> Session" where
  "commandTimeout tok command s =
     (if pendingCommands s tok \<noteq> None
      then reject tok (''Command timeout: '' @ command)
             (s\<lparr>pendingCommands := (pendingCommands s)(tok := None)\<rparr>)
      else s)"

text \<open>
  The passing of \<open>d\<close> milliseconds: the timers that are due run once, in the order they
  were set.
\<close>

definition elapse :: "nat \<Rightarrow> Session \<Rightarrow> Session" where
  "elapse d s =
     foldl (\<lambda>s' tm. commandTimeout (fst (snd tm)) (snd (snd tm)) s')
       (s\<lparr>clock := clock s + d,
          timers := filter (\<lambda>tm. clock s + d < fst tm) (timers s)\<rparr>)
       (filter (\<lambda>tm. fst tm \<le> clock s + d) (timers s))"

text \<open>
  What can happen to a session between two handlers: a command is sent, a parsed record
  is dispatched, time passes.
\<close>

datatype SessionEvent = Send string | Dispatch MIRecord | Elapse nat

fun sessionStep :: "Session \<Rightarrow> SessionEvent \<Rightarrow> Session" where
  "sessionStep s (Send command) =
     (case sendGDBCommand command s of Inl e \<Rightarrow> s | Inr (tok, s') \<Rightarrow> s')"
| "sessionStep s (Dispatch r) = handleMIRecord r s"
| "sessionStep s (Elapse d) = elapse d s"

definition sessionRun :: "Session \<Rightarrow> SessionEvent list \<Rightarrow> Session" where
  "sessionRun s es = foldl sessionStep s es"

text \<open>A new session: the token counter of \<^verbatim>\<open>GDBMI\<close> starts at 1000.\<close>

definition newSession :: Session where
  "newSession =
     \<lparr>gdbChannel = False, pathMapper = None, tokenCounter = 1000,
      pendingCommands = Map.empty, settled = [], timers = [], clock = 0,
      channelWrites = [], commandLog = [], isRunning = False, currentThreadId = 1,
      sentEvents = [], gdbBreakpoints = Map.empty, pendingBreakpoints = [],
      breakpoints = Map.empty\<rparr>"

section \<open>Breakpoint requests (setBreakpointsRequest)\<close>

text \<open>
  \<^verbatim>\<open>await this.sendGDBCommand(command)\<close> inside a handler. The handler goes on when
  the promise settles, and how it settles is the debugger's doing, not the program's:
  the environment \<open>gdb\<close> says, for the token and the command, whether the promise is
  resolved with a record (\<open>Inr\<close>) or rejected with a message (\<open>Inl\<close>: an error result
  or the timeout). The entry of the pending table is gone by then, as
  \<^verbatim>\<open>handleMIRecord\<close> and the timeout leave it. One handler runs at a time here.
\<close>

type_synonym GdbEnv = "nat \<Rightarrow> string \<Rightarrow> string + MIRecord"

definition awaitGDBCommand ::
  "GdbEnv \<Rightarrow> string \<Rightarrow> Session \<Rightarrow> (string + MIRecord) \<times> Session" where
  "awaitGDBCommand gdb command s =
     (case sendGDBCommand command s of
        Inl e \<Rightarrow> (Inl e, s)
      | Inr (tok, s') \<Rightarrow>
          (gdb tok command,
           (case gdb tok command of
              Inl msg \<Rightarrow> reject tok msg (s'\<lparr>pendingCommands := (pendingCommands s')(tok := None)\<rparr>)
            | Inr r \<Rightarrow> resolve tok r (s'\<lparr>pendingCommands := (pendingCommands s')(tok := None)\<rparr>))))"

text \<open>
  \<^verbatim>\<open>rememberGdbBreakpoint\<close>: the bindings of a file are a \<^verbatim>\<open>Map\<close> from line to
  debugger id, kept in insertion order.
\<close>

definition rememberGdbBreakpoint :: "string \<Rightarrow> int option \<Rightarrow> int \<Rightarrow> Session \<Rightarrow> Session" where
  "rememberGdbBreakpoint path ln gdbId s =
     (case ln of
        None \<Rightarrow> s
      | Some l \<Rightarrow>
          s\<lparr>gdbBreakpoints :=
              (gdbBreakpoints s)
                (path \<mapsto> jsMapSet l gdbId
                   (case gdbBreakpoints s path of None \<Rightarrow> [] | Some fb \<Rightarrow> fb))\<rparr>)"

definition getGdbBreakpointNumberFromTuple :: "MIResult list \<Rightarrow> int option" where
  "getGdbBreakpointNumberFromTuple fs =
     (if \<not> truthy (getStringValue (findResult (Some fs) ''number'')) then None
      else
        (case parseIntJS (the (getStringValue (findResult (Some fs) ''number''))) of
           NaN \<Rightarrow> None
         | Num k \<Rightarrow> Some k))"

text \<open>The loop of \<^verbatim>\<open>getGdbBreakpointId\<close> over a list: the first tuple with a number.\<close>

fun firstTupleNumber :: "MIValue list \<Rightarrow> int option" where
  "firstTupleNumber [] = None"
| "firstTupleNumber (v # vs) =
     (case getTuple (Some v) of
        None \<Rightarrow> firstTupleNumber vs
      | Some listTuple \<Rightarrow>
          (case getGdbBreakpointNumberFromTuple listTuple of
             None \<Rightarrow> firstTupleNumber vs
           | Some k \<Rightarrow> Some k))"

definition getGdbBreakpointId :: "MIRecord \<Rightarrow> int option" where
  "getGdbBreakpointId r =
     (case findResult (results r) ''bkpt'' of
        None \<Rightarrow> None
      | Some (MIString str) \<Rightarrow> None
      | Some (MITuple fs) \<Rightarrow> getGdbBreakpointNumberFromTuple fs
      | Some (MIList vs) \<Rightarrow> firstTupleNumber vs)"

record SetBreakpointsArguments =
  sourcePath :: "string option"
  requestedLines :: "int list option"

definition deleteCommand :: "int \<Rightarrow> string" where
  "deleteCommand gdbId = ''break-delete '' @ showInt gdbId"

definition insertCommand :: "string \<Rightarrow> int \<Rightarrow> string" where
  "insertCommand remotePath l = ''break-insert '' @ remotePath @ '':'' @ showInt l"

text \<open>
  The loop over the recorded ids. A delete that is rejected is not caught: the handler
  ends there with the rejection (\<open>Inl\<close>).
\<close>

fun deleteLoop :: "GdbEnv \<Rightarrow> int list \<Rightarrow> Session \<Rightarrow> (string + unit) \<times> Session" where
  "deleteLoop gdb [] s = (Inr (), s)"
| "deleteLoop gdb (gdbId # ids) s =
     (case awaitGDBCommand gdb (deleteCommand gdbId) s of
        (Inl e, s') \<Rightarrow> (Inl e, s')
      | (Inr r, s') \<Rightarrow> deleteLoop gdb ids s')"

definition clearExisting :: "GdbEnv \<Rightarrow> string \<Rightarrow> Session \<Rightarrow> (string + unit) \<times> Session" where
  "clearExisting gdb path s =
     (case gdbBreakpoints s path of
        None \<Rightarrow> (Inr (), s)
      | Some existing \<Rightarrow>
          (case deleteLoop gdb (map snd existing) s of
             (Inl e, s') \<Rightarrow> (Inl e, s')
           | (Inr u, s') \<Rightarrow> (Inr (), s'\<lparr>gdbBreakpoints := (gdbBreakpoints s')(path := None)\<rparr>)))"

text \<open>
  The loop over the requested lines, inside \<^verbatim>\<open>try\<close>: a rejected insert is caught and
  reported unverified; a resolved one is reported verified, and bound when the record
  gives an id.
\<close>

fun insertLoop ::
  "GdbEnv \<Rightarrow> string \<Rightarrow> string \<Rightarrow> int list \<Rightarrow> DapBreakpoint list \<Rightarrow> Session
     \<Rightarrow> DapBreakpoint list \<times> Session" where
  "insertLoop gdb path remotePath [] bs s = (bs, s)"
| "insertLoop gdb path remotePath (l # ls) bs s =
     (case awaitGDBCommand gdb (insertCommand remotePath l) s of
        (Inl e, s') \<Rightarrow> insertLoop gdb path remotePath ls (bs @ [Breakpoint False l None]) s'
      | (Inr r, s') \<Rightarrow>
          (case getGdbBreakpointId r of
             None \<Rightarrow> insertLoop gdb path remotePath ls (bs @ [Breakpoint True l None]) s'
           | Some gdbId \<Rightarrow>
               insertLoop gdb path remotePath ls (bs @ [Breakpoint True l (Some gdbId)])
                 (rememberGdbBreakpoint path (Some l) gdbId s')))"

text \<open>
  \<^verbatim>\<open>setBreakpointsRequest\<close>. \<open>Inr\<close> is the list of the response; \<open>Inl\<close> is the
  handler ending with a rejection, and no response.
\<close>

definition remotePathOf :: "Session \<Rightarrow> string \<Rightarrow> string" where
  "remotePathOf s path =
     (case pathMapper s of
        None \<Rightarrow> path
      | Some pm \<Rightarrow> if toRemotePath pm path \<noteq> [] then toRemotePath pm path else path)"

definition setBreakpointsRequest ::
  "GdbEnv \<Rightarrow> SetBreakpointsArguments \<Rightarrow> Session \<Rightarrow> (string + DapBreakpoint list) \<times> Session" where
  "setBreakpointsRequest gdb args s =
     (if \<not> truthy (sourcePath args) then (Inr [], s)
      else if \<not> gdbChannel s then
        (case requestedLines args of
           None \<Rightarrow> (Inr [], s)
         | Some ls \<Rightarrow>
             (Inr (map (\<lambda>l. Breakpoint False l None) ls),
              s\<lparr>pendingBreakpoints := jsMapSet (the (sourcePath args)) ls (pendingBreakpoints s)\<rparr>))
      else
        (case clearExisting gdb (the (sourcePath args)) s of
           (Inl e, s1) \<Rightarrow> (Inl e, s1)
         | (Inr u, s1) \<Rightarrow>
             (case insertLoop gdb (the (sourcePath args))
                     (remotePathOf s (the (sourcePath args)))
                     (case requestedLines args of None \<Rightarrow> [] | Some ls \<Rightarrow> ls) [] s1 of
                (bs, s2) \<Rightarrow>
                  (Inr bs, s2\<lparr>breakpoints := (breakpoints s2)(the (sourcePath args) \<mapsto> bs)\<rparr>))))"

text \<open>
  The response and the bindings, told from the debugger's answers: the verdict of one
  requested line from the way its insert settled, and the table of the file from the
  inserts that gave an id.
\<close>

definition verdict :: "int \<Rightarrow> string + MIRecord \<Rightarrow> DapBreakpoint" where
  "verdict l reply =
     (case reply of
        Inl e \<Rightarrow> Breakpoint False l None
      | Inr r \<Rightarrow> Breakpoint True l (getGdbBreakpointId r))"

definition bindReply :: "(int \<times> int) list \<Rightarrow> int \<times> (string + MIRecord) \<Rightarrow> (int \<times> int) list" where
  "bindReply fb lr =
     (case snd lr of
        Inl e \<Rightarrow> fb
      | Inr r \<Rightarrow> (case getGdbBreakpointId r of None \<Rightarrow> fb | Some gdbId \<Rightarrow> jsMapSet (fst lr) gdbId fb))"

text \<open>
  Tokens are handed out one by one: the commands of a loop that starts at token \<open>t0\<close>
  carry \<open>t0\<close>, \<open>t0 + 1\<close>, and so on.
\<close>

fun numbered :: "nat \<Rightarrow> string list \<Rightarrow> (nat \<times> string) list" where
  "numbered t0 [] = []"
| "numbered t0 (c # cs) = (t0, c) # numbered (Suc t0) cs"

fun insertReplies :: "GdbEnv \<Rightarrow> nat \<Rightarrow> string \<Rightarrow> int list \<Rightarrow> (string + MIRecord) list" where
  "insertReplies gdb t0 remotePath [] = []"
| "insertReplies gdb t0 remotePath (l # ls) =
     gdb t0 (insertCommand remotePath l) # insertReplies gdb (Suc t0) remotePath ls"

definition fileBindings :: "Session \<Rightarrow> string \<Rightarrow> (int \<times> int) list" where
  "fileBindings s path = (case gdbBreakpoints s path of None \<Rightarrow> [] | Some fb \<Rightarrow> fb)"

fun deletesSucceed :: "GdbEnv \<Rightarrow> nat \<Rightarrow> int list \<Rightarrow> bool" where
  "deletesSucceed gdb t0 [] = True"
| "deletesSucceed gdb t0 (gdbId # ids) =
     (\<not> isl (gdb t0 (deleteCommand gdbId)) \<and> deletesSucceed gdb (Suc t0) ids)"

text \<open>At most one binding for a file and a line: no line occurs twice in a file's table.\<close>

definition bindingsDistinct :: "Session \<Rightarrow> bool" where
  "bindingsDistinct s = (\<forall>p fb. gdbBreakpoints s p = Some fb \<longrightarrow> distinct (map fst fb))"

section \<open>The SSH connection manager (class SSHManager)\<close>

datatype SSHSessionState = Disconnected | Connecting | Connected | Reconnecting | Failed

text \<open>
  An \<^verbatim>\<open>SSHSession\<close>; its field \<^verbatim>\<open>host\<close> is \<open>sessionHost\<close> here, and the client
  object is a number.
\<close>

record SSHSession =
  client :: nat
  state :: SSHSessionState
  sessionHost :: string
  lastActivity :: nat

record SSHConnectionDetails =
  host :: string
  hostname :: string
  port :: nat
  username :: string
  privateKeyPath :: "string option"

text \<open>
  The manager's two maps, the events it has emitted (name and host), and the
  reconnections that \<^verbatim>\<open>attemptReconnect\<close> has put behind its delay (due time and
  session key). Time is in milliseconds.
\<close>

record SSHManager =
  sessions :: "string \<rightharpoonup> SSHSession"
  reconnectAttempts :: "string \<rightharpoonup> nat"
  emitted :: "(string \<times> string) list"
  scheduledReconnects :: "(nat \<times> string) list"
  now :: nat

definition maxReconnectAttempts :: nat where
  "maxReconnectAttempts = 3"

definition reconnectDelay :: nat where
  "reconnectDelay = 2000"

definition getSessionKey :: "SSHConnectionDetails \<Rightarrow> string" where
  "getSessionKey details =
     username details @ ''@'' @ hostname details @ '':'' @ showNat (port details)"

definition updateSessionState :: "string \<Rightarrow> SSHSessionState \<Rightarrow> SSHManager \<Rightarrow> SSHManager" where
  "updateSessionState sessionKey st m =
     (case sessions m sessionKey of
        None \<Rightarrow> m
      | Some session \<Rightarrow> m\<lparr>sessions := (sessions m)(sessionKey \<mapsto> session\<lparr>state := st\<rparr>)\<rparr>)"

definition emit :: "string \<Rightarrow> string \<Rightarrow> SSHManager \<Rightarrow> SSHManager" where
  "emit name h m = m\<lparr>emitted := emitted m @ [(name, h)]\<rparr>"

text \<open>
  \<^verbatim>\<open>attemptReconnect\<close> up to its \<^verbatim>\<open>await\<close>: the state, the counter, and the delay
  after which \<^verbatim>\<open>connect\<close> runs.
\<close>

definition attemptReconnect ::
  "string \<Rightarrow> SSHConnectionDetails \<Rightarrow> nat \<Rightarrow> SSHManager \<Rightarrow> SSHManager" where
  "attemptReconnect sessionKey details attempt m =
     (updateSessionState sessionKey Reconnecting m)
       \<lparr>reconnectAttempts := (reconnectAttempts m)(sessionKey \<mapsto> attempt + 1),
        scheduledReconnects := scheduledReconnects m @ [(now m + reconnectDelay, sessionKey)]\<rparr>"

text \<open>\<^verbatim>\<open>handleDisconnect\<close>, the handler of a client's \<^verbatim>\<open>close\<close> event.\<close>

definition attemptsSoFar :: "SSHManager \<Rightarrow> string \<Rightarrow> nat" where
  "attemptsSoFar m sessionKey =
     (case reconnectAttempts m sessionKey of None \<Rightarrow> 0 | Some a \<Rightarrow> a)"

definition handleDisconnect :: "string \<Rightarrow> SSHConnectionDetails \<Rightarrow> SSHManager \<Rightarrow> SSHManager" where
  "handleDisconnect sessionKey details m =
     (case sessions m sessionKey of
        None \<Rightarrow> m
      | Some session \<Rightarrow>
          (if attemptsSoFar m sessionKey < maxReconnectAttempts
           then attemptReconnect sessionKey details (attemptsSoFar m sessionKey)
                  (emit ''disconnected'' (host details)
                     (updateSessionState sessionKey Disconnected m))
           else emit ''reconnectFailed'' (host details)
                  (emit ''disconnected'' (host details)
                     (updateSessionState sessionKey Disconnected m))))"

text \<open>
  The handlers of a client's \<^verbatim>\<open>ready\<close> and \<^verbatim>\<open>error\<close> events in \<^verbatim>\<open>connect\<close>, and
  \<^verbatim>\<open>disconnect\<close>.
\<close>

definition connectReady :: "string \<Rightarrow> SSHConnectionDetails \<Rightarrow> nat \<Rightarrow> SSHManager \<Rightarrow> SSHManager" where
  "connectReady sessionKey details c m =
     m\<lparr>sessions :=
         (sessions m)
           (sessionKey \<mapsto>
              \<lparr>client = c, state = Connected, sessionHost = host details, lastActivity = now m\<rparr>),
       reconnectAttempts := (reconnectAttempts m)(sessionKey \<mapsto> 0)\<rparr>"

definition connectError :: "string \<Rightarrow> SSHManager \<Rightarrow> SSHManager" where
  "connectError sessionKey m = updateSessionState sessionKey Failed m"

definition disconnect :: "SSHConnectionDetails \<Rightarrow> SSHManager \<Rightarrow> SSHManager" where
  "disconnect details m =
     (case sessions m (getSessionKey details) of
        None \<Rightarrow> m
      | Some session \<Rightarrow>
          m\<lparr>sessions := (sessions m)(getSessionKey details := None),
            reconnectAttempts := (reconnectAttempts m)(getSessionKey details := None)\<rparr>)"

definition newManager :: SSHManager where
  "newManager =
     \<lparr>sessions = Map.empty, reconnectAttempts = Map.empty, emitted = [],
      scheduledReconnects = [], now = 0\<rparr>"

text \<open>
  What a client of a session can report to the manager: it closed, it failed, or (after
  a \<^verbatim>\<open>connect\<close>) it is ready.
\<close>

datatype SSHEvent = ClientClose | ClientError | ClientReady nat

fun sshStep :: "string \<Rightarrow> SSHConnectionDetails \<Rightarrow> SSHManager \<Rightarrow> SSHEvent \<Rightarrow> SSHManager" where
  "sshStep sessionKey details m ClientClose = handleDisconnect sessionKey details m"
| "sshStep sessionKey details m ClientError = connectError sessionKey m"
| "sshStep sessionKey details m (ClientReady c) = connectReady sessionKey details c m"

definition isReady :: "SSHEvent \<Rightarrow> bool" where
  "isReady e = (case e of ClientReady c \<Rightarrow> True | _ \<Rightarrow> False)"

section \<open>Predicates of the statements\<close>

text \<open>
  The shape a value has by its first character: a tuple after \<^verbatim>\<open>{\<close>, a list after
  \<^verbatim>\<open>[\<close>, a string in every other case.
\<close>

definition valueShape :: "string \<Rightarrow> nat \<Rightarrow> MIValue \<Rightarrow> bool" where
  "valueShape str p v =
     (if p < length str \<and> str ! p = CHR ''{'' then (case v of MITuple fs \<Rightarrow> True | _ \<Rightarrow> False)
      else if p < length str \<and> str ! p = CHR ''['' then (case v of MIList vs \<Rightarrow> True | _ \<Rightarrow> False)
      else (case v of MIString s \<Rightarrow> True | _ \<Rightarrow> False))"

text \<open>
  The item of the list element that starts at position \<open>p\<close> and ends at \<open>e\<close>: where a
  name matches, the tuple whose one field is that name with the value parsed after the
  \<^verbatim>\<open>=\<close>; where none matches, the value parsed at \<open>p\<close>, as it is. The value is what
  \<^verbatim>\<open>parseValue\<close> returns there once it has fuel enough, and it has the shape of its
  first character.
\<close>

definition elementIs :: "string \<Rightarrow> nat \<Rightarrow> MIValue \<Rightarrow> nat \<Rightarrow> bool" where
  "elementIs str p item e =
     (case matchName (drop p str) of
        Some (variable, len) \<Rightarrow>
          (\<exists>v m. parseValue m str (p + len) = Some (v, e) \<and> valueShape str (p + len) v \<and>
                 item = MITuple [(variable, v)])
      | None \<Rightarrow> (\<exists>m. parseValue m str p = Some (item, e)) \<and> valueShape str p item)"

text \<open>
  The items of a list body from position \<open>i\<close>, in order, and the index after the list:
  none when, after the separators, the input ends or the bracket closes; otherwise the
  item of the element that starts after the separators, followed by the items from
  where that element ends; an element that ends where it starts is the last item.
\<close>

inductive listItems :: "string \<Rightarrow> nat \<Rightarrow> MIValue list \<Rightarrow> nat \<Rightarrow> bool" for str where
  closing:
    "length str \<le> skipSep str i \<or> str ! skipSep str i = CHR '']'' \<Longrightarrow>
       listItems str i [] (Suc (skipSep str i))"
| element:
    "skipSep str i < length str \<Longrightarrow> str ! skipSep str i \<noteq> CHR '']'' \<Longrightarrow>
     elementIs str (skipSep str i) item e \<Longrightarrow> e \<noteq> skipSep str i \<Longrightarrow>
     listItems str e items e' \<Longrightarrow>
       listItems str i (item # items) e'"
| stuck:
    "skipSep str i < length str \<Longrightarrow> str ! skipSep str i \<noteq> CHR '']'' \<Longrightarrow>
     elementIs str (skipSep str i) item (skipSep str i) \<Longrightarrow>
       listItems str i [item] (Suc (skipSep str i))"

text \<open>
  The bookkeeping that every state of a session satisfies (it holds of a new session,
  and sending, dispatching and the passing of time keep it): the promise stored under a
  token is the one numbered by that token; tokens of pending commands, of settled
  promises and of timers have been handed out already; a settled promise is no longer
  pending; no promise is settled twice; no two timers carry the same token.
\<close>

definition sessionInv :: "Session \<Rightarrow> bool" where
  "sessionInv s =
     ((\<forall>t p. pendingCommands s t = Some p \<longrightarrow> p = t \<and> t < tokenCounter s) \<and>
      (\<forall>p \<in> fst ` set (settled s). p < tokenCounter s \<and> pendingCommands s p = None) \<and>
      distinct (map fst (settled s)) \<and>
      (\<forall>tm \<in> set (timers s). fst (snd tm) < tokenCounter s) \<and>
      distinct (map (\<lambda>tm. fst (snd tm)) (timers s)))"

text \<open>The time that passes in a list of events, and whether a list of events leaves a
  token without a result record.\<close>

fun elapsed :: "SessionEvent list \<Rightarrow> nat" where
  "elapsed [] = 0"
| "elapsed (Elapse d # es) = d + elapsed es"
| "elapsed (e # es) = elapsed es"

fun answers :: "nat \<Rightarrow> SessionEvent \<Rightarrow> bool" where
  "answers tok (Dispatch r) = (rtype r = Result \<and> token r = Some tok)"
| "answers tok e = False"

definition noAnswerFor :: "nat \<Rightarrow> SessionEvent list \<Rightarrow> bool" where
  "noAnswerFor tok es = list_all (\<lambda>e. \<not> answers tok e) es"

text \<open>How a matching result record settles the promise, as the source has it.\<close>

definition resultOutcome :: "MIRecord \<Rightarrow> Outcome" where
  "resultOutcome r =
     (if klass r = Some ''error''
      then Rejected (orElse (getStringValue (findResult (results r) ''msg'')) ''GDB command failed'')
      else Resolved r)"

section \<open>The codec: termination, list items, escapes\<close>

lemmas char_defs =
  matchName_def isNameStart_def isNameChar_def isLower_def isUpper_def isDigit_def
  charCode_def

lemmas line_defs =
  parseLine_def trimJS_def isTrimSpace_def tokenMatch_def startsWithChar_def
  parseResultRecord_def parseAsyncRecord_def parseStreamRecord_def resultMatch_def
  asyncMatch_def streamMatch_def classMatch_def isClassChar_def noLineTerminator_def
  digitsToNat_def isDigit_def isLower_def charCode_def

subsection \<open>Fuel\<close>

text \<open>
  More fuel never changes a result: \<open>None\<close> at every amount of fuel is the source's
  loop running for ever, and \<open>Some\<close> at some amount is its result.
\<close>

lemma parseValue_fuel_mono:
  "(parseValue n str i = Some r \<longrightarrow> parseValue (Suc n) str i = Some r) \<and>
   (tupleLoop n str i res = Some r \<longrightarrow> tupleLoop (Suc n) str i res = Some r) \<and>
   (listLoop n str i vals = Some r \<longrightarrow> listLoop (Suc n) str i vals = Some r)"
proof (induction n arbitrary: i res vals r)
  case 0
  show ?case by simp
next
  case (Suc n)
  have pv: "parseValue n str j = Some x \<Longrightarrow> parseValue (Suc n) str j = Some x" for j x
    using Suc.IH by blast
  have tl: "tupleLoop n str j a = Some x \<Longrightarrow> tupleLoop (Suc n) str j a = Some x" for j a x
    using Suc.IH by blast
  have ll: "listLoop n str j a = Some x \<Longrightarrow> listLoop (Suc n) str j a = Some x" for j a x
    using Suc.IH by blast
  have 1: "parseValue (Suc (Suc n)) str i = Some r" if a: "parseValue (Suc n) str i = Some r"
    apply (subst parseValue.simps(2))
    using a apply (subst (asm) parseValue.simps(2))
    by (auto split: if_splits simp del: tupleLoop.simps listLoop.simps intro: tl ll)
  have 2: "tupleLoop (Suc (Suc n)) str i res = Some r" if a: "tupleLoop (Suc n) str i res = Some r"
  proof -
    let ?j = "skipSep str i"
    show ?thesis
    proof (cases "matchName (drop ?j str)")
      case None
      then show ?thesis
        apply (subst tupleLoop.simps(2))
        using a apply (subst (asm) tupleLoop.simps(2))
        by (auto split: if_splits simp del: tupleLoop.simps intro: tl)
    next
      case (Some nm)
      obtain variable len where nm: "nm = (variable, len)" by (cases nm)
      show ?thesis
      proof (cases "parseValue n str (?j + len)")
        case None
        then show ?thesis
          apply (subst tupleLoop.simps(2))
          using a Some nm apply (subst (asm) tupleLoop.simps(2))
          by (auto split: if_splits simp del: tupleLoop.simps parseValue.simps)
      next
        case (Some ve)
        obtain v e where ve: "ve = (v, e)" by (cases ve)
        have "parseValue (Suc n) str (?j + len) = Some (v, e)"
          using pv Some ve by simp
        then show ?thesis
          apply (subst tupleLoop.simps(2))
          using a \<open>matchName (drop ?j str) = Some nm\<close> nm Some ve
          apply (subst (asm) tupleLoop.simps(2))
          by (auto split: if_splits simp del: tupleLoop.simps parseValue.simps intro: tl)
      qed
    qed
  qed
  have 3: "listLoop (Suc (Suc n)) str i vals = Some r" if a: "listLoop (Suc n) str i vals = Some r"
  proof -
    let ?j = "skipSep str i"
    let ?p = "case matchName (drop ?j str) of None \<Rightarrow> ?j | Some (variable, len) \<Rightarrow> ?j + len"
    show ?thesis
    proof (cases "parseValue n str ?p")
      case None
      then show ?thesis
        apply (subst listLoop.simps(2))
        using a apply (subst (asm) listLoop.simps(2))
        by (auto split: if_splits option.splits simp del: listLoop.simps parseValue.simps)
    next
      case (Some ve)
      obtain v e where ve: "ve = (v, e)" by (cases ve)
      have "parseValue (Suc n) str ?p = Some (v, e)"
        using pv Some ve by simp
      then show ?thesis
        apply (subst listLoop.simps(2))
        using a Some ve apply (subst (asm) listLoop.simps(2))
        by (auto split: if_splits option.splits simp del: listLoop.simps parseValue.simps
              intro: ll)
    qed
  qed
  from 1 2 3 show ?case by blast
qed

subsection \<open>The tuple loop without progress\<close>

text \<open>
  Where the tuple loop stands when it makes no progress: at a character that is neither
  a separator nor the closing brace, and where no name matches.
\<close>

lemma tupleLoop_no_progress:
  assumes "i < length str" "str ! i \<noteq> CHR ''}''" "skipSep str i = i"
    and "matchName (drop i str) = None"
  shows "tupleLoop n str i res = None"
  by (induction n) (use assms in simp_all)

text \<open>
  The list loop at such a position, when the value parsed there ends where it starts:
  the element is pushed and the loop is left.
\<close>

lemma listLoop_no_progress_returns:
  assumes "i < length str" "str ! i \<noteq> CHR '']''" "skipSep str i = i"
    and "matchName (drop i str) = None" "parseValue n str i = Some (v, i)"
  shows "listLoop (Suc n) str i vals = Some (MIList (vals @ [v]), Suc i)"
  using assms by simp

lemma tupleLoop_bare_element: "tupleLoop n ''script={\"silent\"}'' 8 res = None"
proof (rule tupleLoop_no_progress)
  show "8 < length ''script={\"silent\"}''" by simp
  show "''script={\"silent\"}'' ! 8 \<noteq> CHR ''}''" by simp
  show "skipSep ''script={\"silent\"}'' 8 = 8" by (simp add: skipSep.simps)
  show "matchName (drop 8 ''script={\"silent\"}'') = None" by (simp add: char_defs)
qed

lemma parseValue_bare_element: "parseValue n ''script={\"silent\"}'' 7 = None"
proof (cases n)
  case 0
  then show ?thesis by simp
next
  case (Suc m)
  have "parseValue (Suc m) ''script={\"silent\"}'' 7 = tupleLoop m ''script={\"silent\"}'' 8 []"
    by simp
  then show ?thesis using Suc tupleLoop_bare_element by simp
qed

lemma parseResults_bare_element: "parseResults n ''script={\"silent\"}'' = None"
proof (cases n)
  case 0
  then show ?thesis by (simp add: parseResults_def)
next
  case (Suc m)
  have sk: "skipSep ''script={\"silent\"}'' 0 = 0" by (simp add: skipSep.simps)
  have mn: "matchName (drop 0 ''script={\"silent\"}'') = Some (''script'', 7)"
    by (simp add: char_defs)
  have "parseResultsLoop (Suc m) ''script={\"silent\"}'' 0 [] =
        (case parseValue m ''script={\"silent\"}'' 7 of None \<Rightarrow> None
         | Some (v, endIndex) \<Rightarrow>
             parseResultsLoop m ''script={\"silent\"}'' endIndex ([] @ [(''script'', v)]))"
    apply (subst parseResultsLoop.simps(2))
    apply (simp only: sk mn)
    apply simp
    done
  then show ?thesis using Suc parseValue_bare_element by (simp add: parseResults_def)
qed

text \<open>
  C3 (the code does not do what the claim says). The claim: field-list parsing returns on
  every input, also on a tuple body with an element that is not \<^verbatim>\<open>name=value\<close>. On the
  result line \<^verbatim>\<open>^done,script={"silent"}\<close> the tuple loop of \<^verbatim>\<open>parseValue\<close> stays
  at the quote for ever: no amount of fuel gives \<^verbatim>\<open>parseValue\<close>, \<^verbatim>\<open>parseResults\<close> or
  \<^verbatim>\<open>parseLine\<close> a result. The list loop has the check of the index that the tuple loop
  lacks.
\<close>

theorem tuple_bare_element_never_returns:
  "parseValue fuel ''script={\"silent\"}'' 7 = None \<and>
   parseResults fuel ''script={\"silent\"}'' = None \<and>
   parseLine fuel ''^done,script={\"silent\"}'' = None"
  by (simp add: parseValue_bare_element parseResults_bare_element line_defs)

subsection \<open>Items of a list\<close>

lemma stringLoop_is_string: "\<exists>s e. stringLoop str i esc val = (MIString s, e)"
  by (induction str i esc val rule: stringLoop.induct) (subst stringLoop.simps, auto)

lemma fallbackLoop_is_string: "\<exists>s e. fallbackLoop str i val = (MIString s, e)"
  by (induction str i val rule: fallbackLoop.induct) (subst fallbackLoop.simps, auto)

lemma tupleLoop_is_tuple: "tupleLoop n str i res = Some (r, e) \<Longrightarrow> \<exists>fs. r = MITuple fs"
  by (induction n arbitrary: i res r e) (auto split: if_splits option.splits)

lemma skipSep_stays:
  "length str \<le> i \<or> (str ! i \<noteq> CHR '' '' \<and> str ! i \<noteq> CHR '','') \<Longrightarrow> skipSep str i = i"
  by (subst skipSep.simps) auto

lemma parseValue_fuel_le:
  "n \<le> n' \<Longrightarrow> parseValue n str i = Some r \<Longrightarrow> parseValue n' str i = Some r"
proof (induction n' arbitrary: n)
  case 0
  then show ?case by simp
next
  case (Suc n')
  show ?case
  proof (cases "n = Suc n'")
    case True
    with Suc.prems show ?thesis by simp
  next
    case False
    with Suc.prems have "n \<le> n'" by simp
    from Suc.IH[OF this Suc.prems(2)] parseValue_fuel_mono[of n' str i r]
    show ?thesis by blast
  qed
qed

lemma parseValue_unique:
  assumes "parseValue m str i = Some r" "parseValue m' str i = Some r'"
  shows "r = r'"
proof -
  from parseValue_fuel_le[OF max.cobounded1 assms(1), of m']
       parseValue_fuel_le[OF max.cobounded2 assms(2), of m]
  show ?thesis by simp
qed

lemma listLoop_is_list: "listLoop n str i vals = Some (r, e) \<Longrightarrow> \<exists>vs. r = MIList vs"
  by (induction n arbitrary: i vals r e) (auto split: if_splits option.splits)

lemma parseValue_shape:
  assumes "parseValue n str i = Some (v, e)"
  shows "valueShape str i v"
proof (cases n)
  case 0
  with assms show ?thesis by simp
next
  case (Suc k)
  consider (str) "i < length str" "str ! i = dquote"
    | (tup) "i < length str" "str ! i = CHR ''{''"
    | (lst) "i < length str" "str ! i = CHR ''[''"
    | (other) "\<not> (i < length str \<and> (str ! i = dquote \<or> str ! i = CHR ''{'' \<or> str ! i = CHR ''[''))"
    by blast
  then show ?thesis
  proof cases
    case str
    with assms Suc stringLoop_is_string[of str "Suc i" False "[]"] show ?thesis
      by (auto simp: valueShape_def)
  next
    case tup
    with assms Suc have "tupleLoop k str (Suc i) [] = Some (v, e)" by simp
    from tupleLoop_is_tuple[OF this] tup show ?thesis by (auto simp: valueShape_def)
  next
    case lst
    with assms Suc have "listLoop k str (Suc i) [] = Some (v, e)" by simp
    from listLoop_is_list[OF this] lst show ?thesis by (auto simp: valueShape_def)
  next
    case other
    with assms Suc fallbackLoop_is_string[of str i "[]"] show ?thesis
      by (auto simp: valueShape_def)
  qed
qed

lemma elementIs_named:
  assumes "matchName (drop p str) = Some (variable, len)"
    and "parseValue m str (p + len) = Some (v, e)"
  shows "elementIs str p (MITuple [(variable, v)]) e"
  using assms parseValue_shape[OF assms(2)] by (auto simp: elementIs_def)

lemma elementIs_bare:
  assumes "matchName (drop p str) = None" and "parseValue m str p = Some (v, e)"
  shows "elementIs str p v e"
  using assms parseValue_shape[OF assms(2)] by (auto simp: elementIs_def)

lemma elementIs_unique:
  assumes "elementIs str p item e" "elementIs str p item' e'"
  shows "item = item' \<and> e = e'"
proof (cases "matchName (drop p str)")
  case None
  with assms obtain m m' where "parseValue m str p = Some (item, e)"
    "parseValue m' str p = Some (item', e')" by (auto simp: elementIs_def)
  from parseValue_unique[OF this] show ?thesis by simp
next
  case (Some nm)
  obtain variable len where nm: "nm = (variable, len)" by (cases nm)
  with Some assms obtain v m v' m' where
    a: "parseValue m str (p + len) = Some (v, e)" "item = MITuple [(variable, v)]"
    and b: "parseValue m' str (p + len) = Some (v', e')" "item' = MITuple [(variable, v')]"
    by (auto simp: elementIs_def)
  from parseValue_unique[OF a(1) b(1)] a(2) b(2) show ?thesis by simp
qed

lemma listLoop_elements:
  "listLoop n str i vals = Some (r, e) \<Longrightarrow>
     \<exists>items. r = MIList (vals @ items) \<and> listItems str i items e"
proof (induction n arbitrary: i vals r e)
  case 0
  then show ?case by simp
next
  case (Suc n)
  let ?j = "skipSep str i"
  show ?case
  proof (cases "i < length str \<and> str ! i \<noteq> CHR '']''")
    case False
    with Suc.prems have r: "r = MIList vals" "e = Suc i" by (auto split: if_splits)
    from False have "skipSep str i = i" by (intro skipSep_stays) auto
    with False listItems.closing[of str i] r show ?thesis by auto
  next
    case enter: True
    show ?thesis
    proof (cases "length str \<le> ?j \<or> str ! ?j = CHR '']''")
      case True
      with enter Suc.prems have "r = MIList vals" "e = Suc ?j" by (auto split: if_splits)
      with listItems.closing[OF True] show ?thesis by simp
    next
      case inside: False
      then have j: "?j < length str" "str ! ?j \<noteq> CHR '']''" by simp_all
      have "\<exists>item e'. elementIs str ?j item e' \<and>
          (if e' = ?j then Some (MIList (vals @ [item]), Suc e')
           else listLoop n str e' (vals @ [item])) = Some (r, e)"
      proof (cases "matchName (drop ?j str)")
        case None
        from Suc.prems enter inside None obtain v e' where
          pv: "parseValue n str ?j = Some (v, e')" and
          rest: "(if e' = ?j then Some (MIList (vals @ [v]), Suc e')
                  else listLoop n str e' (vals @ [v])) = Some (r, e)"
          by (auto split: option.splits)
        from elementIs_bare[OF None pv] rest show ?thesis by blast
      next
        case (Some nm)
        obtain variable len where nm: "nm = (variable, len)" by (cases nm)
        from Suc.prems enter inside Some nm obtain v e' where
          pv: "parseValue n str (?j + len) = Some (v, e')" and
          rest: "(if e' = ?j then Some (MIList (vals @ [MITuple [(variable, v)]]), Suc e')
                  else listLoop n str e' (vals @ [MITuple [(variable, v)]])) = Some (r, e)"
          by (auto split: option.splits)
        from elementIs_named[OF Some[unfolded nm] pv] rest show ?thesis by blast
      qed
      then obtain item e' where el: "elementIs str ?j item e'" and
        rest: "(if e' = ?j then Some (MIList (vals @ [item]), Suc e')
                else listLoop n str e' (vals @ [item])) = Some (r, e)" by blast
      show ?thesis
      proof (cases "e' = ?j")
        case True
        with rest have "r = MIList (vals @ [item])" "e = Suc ?j" by simp_all
        with listItems.stuck[OF j el[unfolded True]] show ?thesis by auto
      next
        case False
        with rest have "listLoop n str e' (vals @ [item]) = Some (r, e)" by simp
        from Suc.IH[OF this] obtain items where
          "r = MIList ((vals @ [item]) @ items)" "listItems str e' items e" by blast
        with listItems.element[OF j el False] show ?thesis by auto
      qed
    qed
  qed
qed

lemma listItems_unique:
  "listItems str i items e \<Longrightarrow> listItems str i items' e' \<Longrightarrow> items = items' \<and> e = e'"
proof (induction arbitrary: items' e' rule: listItems.induct)
  case (closing i)
  from closing.prems closing.hyps show ?case
    by (cases rule: listItems.cases) auto
next
  case (element i item e items e'')
  from element.prems show ?case
  proof (cases rule: listItems.cases)
    case closing
    with element.hyps show ?thesis by auto
  next
    case (element item2 e2 items2)
    from elementIs_unique[OF \<open>elementIs str (skipSep str i) item e\<close> element(4)]
    have "item = item2" "e = e2" by simp_all
    with element.IH[of items2 e'] element(1,6) show ?thesis by simp
  next
    case (stuck item2)
    from elementIs_unique[OF \<open>elementIs str (skipSep str i) item e\<close> stuck(5)]
      \<open>e \<noteq> skipSep str i\<close>
    show ?thesis by simp
  qed
next
  case (stuck i item)
  from stuck.prems show ?case
  proof (cases rule: listItems.cases)
    case closing
    with stuck.hyps show ?thesis by auto
  next
    case (element item2 e2 items2)
    from elementIs_unique[OF stuck.hyps(3) element(4)] element(5) show ?thesis by simp
  next
    case (stuck item2)
    from elementIs_unique[OF \<open>elementIs str (skipSep str i) item (skipSep str i)\<close> stuck(5)]
      stuck(1,2) show ?thesis by simp
  qed
qed

text \<open>
  The relation holds of what the list loop returns with enough fuel, so it describes
  the lists that the code returns and no others.
\<close>

lemma listLoop_fuel_le:
  "n \<le> n' \<Longrightarrow> listLoop n str i vals = Some r \<Longrightarrow> listLoop n' str i vals = Some r"
proof (induction n' arbitrary: n)
  case 0
  then show ?case by simp
next
  case (Suc n')
  show ?case
  proof (cases "n = Suc n'")
    case True
    with Suc.prems show ?thesis by simp
  next
    case False
    with Suc.prems have "n \<le> n'" by simp
    from Suc.IH[OF this Suc.prems(2)]
      parseValue_fuel_mono[where n=n' and str=str and i=i and r=r and vals=vals]
    show ?thesis by blast
  qed
qed

lemma listLoop_element_step:
  assumes j: "skipSep str i < length str" "str ! skipSep str i \<noteq> CHR '']''"
    and el: "elementIs str (skipSep str i) item e"
  shows "\<exists>m. \<forall>k\<ge>m. \<forall>vals. listLoop (Suc k) str i vals =
           (if e = skipSep str i then Some (MIList (vals @ [item]), Suc e)
            else listLoop k str e (vals @ [item]))"
proof -
  let ?j = "skipSep str i"
  have enter: "i < length str \<and> str ! i \<noteq> CHR '']''"
  proof (rule ccontr)
    assume "\<not> (i < length str \<and> str ! i \<noteq> CHR '']'')"
    then have "length str \<le> i \<or> (str ! i \<noteq> CHR '' '' \<and> str ! i \<noteq> CHR '','')" by auto
    from skipSep_stays[OF this] j \<open>\<not> (i < length str \<and> str ! i \<noteq> CHR '']'')\<close>
    show False by auto
  qed
  show ?thesis
  proof (cases "matchName (drop ?j str)")
    case None
    with el obtain m where pv: "parseValue m str ?j = Some (item, e)"
      by (auto simp: elementIs_def)
    have "listLoop (Suc k) str i vals =
           (if e = ?j then Some (MIList (vals @ [item]), Suc e)
            else listLoop k str e (vals @ [item]))" if "m \<le> k" for k vals
      using parseValue_fuel_le[OF that pv] enter j None by simp
    then show ?thesis by blast
  next
    case (Some nm)
    obtain variable len where nm: "nm = (variable, len)" by (cases nm)
    with Some el obtain v m where pv: "parseValue m str (?j + len) = Some (v, e)"
      and it: "item = MITuple [(variable, v)]"
      by (auto simp: elementIs_def)
    have "listLoop (Suc k) str i vals =
           (if e = ?j then Some (MIList (vals @ [item]), Suc e)
            else listLoop k str e (vals @ [item]))" if "m \<le> k" for k vals
      using parseValue_fuel_le[OF that pv] enter j Some nm it by simp
    then show ?thesis by blast
  qed
qed

lemma listItems_returned:
  "listItems str i items e \<Longrightarrow>
     \<exists>n. \<forall>vals. listLoop n str i vals = Some (MIList (vals @ items), e)"
proof (induction rule: listItems.induct)
  case (closing i)
  have "listLoop (Suc 0) str i vals = Some (MIList (vals @ []), Suc (skipSep str i))" for vals
  proof (cases "i < length str \<and> str ! i \<noteq> CHR '']''")
    case True
    with closing show ?thesis by simp
  next
    case False
    then have "skipSep str i = i" by (intro skipSep_stays) auto
    with False show ?thesis by simp
  qed
  then show ?case by blast
next
  case (element i item e items e')
  from listLoop_element_step[OF element.hyps(1,2,3)] element.hyps(4) obtain m where
    st: "\<And>k vals. m \<le> k \<Longrightarrow> listLoop (Suc k) str i vals = listLoop k str e (vals @ [item])"
    by auto
  from element.IH obtain n where
    rest: "\<And>vals. listLoop n str e vals = Some (MIList (vals @ items), e')" by blast
  have "listLoop (Suc (max m n)) str i vals = Some (MIList (vals @ item # items), e')" for vals
    using st[of "max m n" vals] listLoop_fuel_le[OF max.cobounded2 rest, of m "vals @ [item]"]
    by simp
  then show ?case by blast
next
  case (stuck i item)
  from listLoop_element_step[OF stuck.hyps] obtain m where
    "\<And>k vals. m \<le> k \<Longrightarrow> listLoop (Suc k) str i vals =
        Some (MIList (vals @ [item]), Suc (skipSep str i))"
    by auto
  from this[of m] show ?case by blast
qed

text \<open>
  C4. Whenever \<^verbatim>\<open>parseValue\<close> returns a list, it stands at an opening bracket and
  the items are exactly the elements of the bracket's body, each in its place: a
  \<^verbatim>\<open>name=value\<close> element is returned as the tuple with that one pair, every other
  element as the value parsed there, as it is; no element is left out and no item is
  added. Each value is a string, a tuple or a list, by its first character. A list
  inside a list or a tuple is a result of \<^verbatim>\<open>parseValue\<close> itself.
\<close>

theorem parseValue_returns_list_elements:
  assumes "parseValue n str i = Some (MIList items, e)"
  shows "i < length str \<and> str ! i = CHR ''['' \<and> listItems str (Suc i) items e"
proof (cases n)
  case 0
  with assms show ?thesis by simp
next
  case (Suc k)
  have br: "i < length str \<and> str ! i = CHR ''[''"
    using parseValue_shape[OF assms] by (auto simp: valueShape_def split: if_splits)
  with assms Suc have "listLoop k str (Suc i) [] = Some (MIList items, e)" by simp
  from listLoop_elements[OF this] br show ?thesis by simp
qed

text \<open>
  For \<^verbatim>\<open>[frame={level="0"},"x"]\<close> the items are the tuple that wraps the pair
  \<^verbatim>\<open>frame\<close> and the string \<^verbatim>\<open>x\<close>; the empty list and a list with another second
  item are not the items of that body.
\<close>

lemma parseValue_list_example:
  "parseValue 6 ''[frame={level=\"0\"},\"x\"]'' 0 =
     Some (MIList [MITuple [(''frame'', MITuple [(''level'', MIString ''0'')])], MIString ''x''], 23)"
  by code_simp

theorem parseValue_returns_list_elements_witness:
  "parseValue 6 ''[frame={level=\"0\"},\"x\"]'' 0 =
     Some (MIList [MITuple [(''frame'', MITuple [(''level'', MIString ''0'')])], MIString ''x''], 23) \<and>
   listItems ''[frame={level=\"0\"},\"x\"]'' 1
     [MITuple [(''frame'', MITuple [(''level'', MIString ''0'')])], MIString ''x''] 23 \<and>
   \<not> listItems ''[frame={level=\"0\"},\"x\"]'' 1 [] 23 \<and>
   \<not> listItems ''[frame={level=\"0\"},\"x\"]'' 1
     [MITuple [(''frame'', MITuple [(''level'', MIString ''0'')])], MIString ''0''] 23"
proof -
  note T = parseValue_returns_list_elements[OF parseValue_list_example]
  then have l: "listItems ''[frame={level=\"0\"},\"x\"]'' 1
     [MITuple [(''frame'', MITuple [(''level'', MIString ''0'')])], MIString ''x''] 23"
    by simp
  have n1: "\<not> listItems ''[frame={level=\"0\"},\"x\"]'' 1 [] 23"
    using listItems_unique[OF l, of "[]" 23] by blast
  have n2: "\<not> listItems ''[frame={level=\"0\"},\"x\"]'' 1
     [MITuple [(''frame'', MITuple [(''level'', MIString ''0'')])], MIString ''0''] 23"
    using listItems_unique[OF l,
        of "[MITuple [(''frame'', MITuple [(''level'', MIString ''0'')])], MIString ''0'']" 23]
    by auto
  from parseValue_list_example l n1 n2 show ?thesis by blast
qed

subsection \<open>Escapes\<close>

text \<open>
  C5 (the code does not do what the claim says). The claim: unescaping an escaped string
  gives the string back, for every string. For the two characters backslash and
  \<^verbatim>\<open>n\<close>, escaping gives backslash, backslash, \<^verbatim>\<open>n\<close>; the first replacement of
  \<^verbatim>\<open>unescapeString\<close> takes the second backslash and the \<^verbatim>\<open>n\<close> for an escaped line
  feed, and the result is a backslash and a line feed.
\<close>

theorem unescape_escape_backslash_n:
  "escapeString [backslash, CHR ''n''] = [backslash, backslash, CHR ''n''] \<and>
   unescapeString (escapeString [backslash, CHR ''n'']) = [backslash, newline] \<and>
   unescapeString (escapeString [backslash, CHR ''n'']) \<noteq> [backslash, CHR ''n'']"
  by (simp add: unescapeString_def escapeString_def escapeChar_def)

subsection \<open>Escapes without a backslash\<close>

text \<open>
  The strings on which unescaping does undo escaping: those without a backslash. Each
  character of such a string escapes to one character that is not a backslash, or to a
  backslash and a character that is not one; a replacement of \<^verbatim>\<open>unescapeString\<close> then
  acts on each of these units by itself.
\<close>

lemma replaceAll2_other: "x \<noteq> a \<Longrightarrow> replaceAll2 a b r (x # rest) = x # replaceAll2 a b r rest"
  by (cases rest) simp_all

lemma replaceAll2_units:
  assumes "\<forall>c \<in> set s. (\<exists>x. f c = [x] \<and> x \<noteq> backslash) \<or> (\<exists>y. f c = [backslash, y] \<and> y \<noteq> backslash)"
  shows "replaceAll2 backslash b r (concat (map f s)) =
           concat (map (\<lambda>c. if f c = [backslash, b] then r else f c) s)"
  using assms
proof (induction s)
  case Nil
  show ?case by simp
next
  case (Cons c s)
  from Cons.prems have rest: "\<forall>c \<in> set s. (\<exists>x. f c = [x] \<and> x \<noteq> backslash) \<or>
      (\<exists>y. f c = [backslash, y] \<and> y \<noteq> backslash)" by simp
  note IH = Cons.IH[OF rest]
  from Cons.prems consider x where "f c = [x]" "x \<noteq> backslash"
    | y where "f c = [backslash, y]" "y \<noteq> backslash" by auto
  then show ?case
  proof cases
    case 1
    then show ?thesis using IH by (simp add: replaceAll2_other)
  next
    case 2
    show ?thesis
    proof (cases "y = b")
      case True
      with 2 IH show ?thesis by simp
    next
      case False
      with 2 IH show ?thesis by (simp add: replaceAll2_other)
    qed
  qed
qed

lemma unescape_escape_without_backslash:
  assumes "backslash \<notin> set s"
  shows "unescapeString (escapeString s) = s"
proof -
  let ?f1 = "\<lambda>c. if escapeChar c = [backslash, CHR ''n''] then [newline] else escapeChar c"
  let ?f2 = "\<lambda>c. if ?f1 c = [backslash, CHR ''r''] then [creturn] else ?f1 c"
  let ?f3 = "\<lambda>c. if ?f2 c = [backslash, CHR ''t''] then [tabchar] else ?f2 c"
  let ?f4 = "\<lambda>c. if ?f3 c = [backslash, dquote] then [dquote] else ?f3 c"
  let ?f5 = "\<lambda>c. if ?f4 c = [backslash, backslash] then [backslash] else ?f4 c"
  have nb: "c \<noteq> backslash" if "c \<in> set s" for c using that assms by auto
  have p1: "replaceAll2 backslash (CHR ''n'') [newline] (concat (map escapeChar s)) =
      concat (map ?f1 s)"
    by (rule replaceAll2_units) (auto simp: escapeChar_def dest: nb)
  have p2: "replaceAll2 backslash (CHR ''r'') [creturn] (concat (map ?f1 s)) = concat (map ?f2 s)"
    by (rule replaceAll2_units) (auto simp: escapeChar_def dest: nb)
  have p3: "replaceAll2 backslash (CHR ''t'') [tabchar] (concat (map ?f2 s)) = concat (map ?f3 s)"
    by (rule replaceAll2_units) (auto simp: escapeChar_def dest: nb)
  have p4: "replaceAll2 backslash dquote [dquote] (concat (map ?f3 s)) = concat (map ?f4 s)"
    by (rule replaceAll2_units) (auto simp: escapeChar_def dest: nb)
  have p5: "replaceAll2 backslash backslash [backslash] (concat (map ?f4 s)) = concat (map ?f5 s)"
    by (rule replaceAll2_units) (auto simp: escapeChar_def dest: nb)
  have "?f5 c = [c]" if "c \<in> set s" for c
    using nb[OF that] by (simp add: escapeChar_def)
  then have "concat (map ?f5 s) = concat (map (\<lambda>c. [c]) s)"
    by (intro arg_cong[where f = concat] map_cong) simp_all
  also have "\<dots> = s" by (induction s) simp_all
  finally have "concat (map ?f5 s) = s" .
  then show ?thesis
    unfolding unescapeString_def escapeString_def p1 p2 p3 p4 p5 .
qed

section \<open>The correlation of commands and results\<close>

subsection \<open>One dispatched record\<close>

lemma handleMIRecord_matched:
  assumes "rtype r = Result" "token r = Some t" "pendingCommands s t = Some p"
  shows "pendingCommands (handleMIRecord r s) = (pendingCommands s)(t := None)"
    and "settled (handleMIRecord r s) = settled s @ [(p, resultOutcome r)]"
    and "tokenCounter (handleMIRecord r s) = tokenCounter s"
    and "timers (handleMIRecord r s) = timers s"
    and "clock (handleMIRecord r s) = clock s"
  using assms
  by (simp_all add: handleMIRecord_def resultOutcome_def resolve_def reject_def)

lemma handleStopped_fields:
  "pendingCommands (handleStopped ev s) = pendingCommands s"
  "settled (handleStopped ev s) = settled s"
  "tokenCounter (handleStopped ev s) = tokenCounter s"
  "timers (handleStopped ev s) = timers s"
  "clock (handleStopped ev s) = clock s"
  by (simp_all add: handleStopped_def sendEvent_def)

lemma handleMIRecord_unmatched:
  assumes "rtype r \<noteq> Result \<or> token r = None \<or> pendingCommands s (the (token r)) = None"
  shows "pendingCommands (handleMIRecord r s) = pendingCommands s"
    and "settled (handleMIRecord r s) = settled s"
    and "tokenCounter (handleMIRecord r s) = tokenCounter s"
    and "timers (handleMIRecord r s) = timers s"
    and "clock (handleMIRecord r s) = clock s"
  using assms
  by (auto simp: handleMIRecord_def handleStopped_fields sendEvent_def
        split: MIRecordType.splits option.splits)

lemma sendGDBCommand_fields:
  assumes "sendGDBCommand c s = Inr (tok, s')"
  shows "tok = tokenCounter s"
    and "tokenCounter s' = Suc (tokenCounter s)"
    and "pendingCommands s' = (pendingCommands s)(tok \<mapsto> tok)"
    and "settled s' = settled s"
    and "timers s' = timers s @ [(clock s + commandTimeoutMs, tok, c)]"
    and "clock s' = clock s"
    and "commandLog s' = commandLog s @ [(tok, c)]"
  using assms by (auto simp: sendGDBCommand_def split: if_splits)

lemma commandTimeout_fields:
  "pendingCommands (commandTimeout tok c s) = (pendingCommands s)(tok := None)"
  "settled (commandTimeout tok c s) =
     (if pendingCommands s tok \<noteq> None
      then settled s @ [(tok, Rejected (''Command timeout: '' @ c))] else settled s)"
  "tokenCounter (commandTimeout tok c s) = tokenCounter s"
  "timers (commandTimeout tok c s) = timers s"
  "clock (commandTimeout tok c s) = clock s"
  by (auto simp: commandTimeout_def reject_def)

subsection \<open>The bookkeeping is kept\<close>

lemma sessionInv_newSession: "sessionInv (newSession\<lparr>gdbChannel := ch\<rparr>)"
  by (simp add: sessionInv_def newSession_def)

lemma sessionInv_retire:
  assumes inv: "sessionInv s" and pend: "pendingCommands s t = Some p"
    and pc: "pendingCommands s' = (pendingCommands s)(t := None)"
    and st: "settled s' = settled s @ [(p, outcome)]"
    and tc: "tokenCounter s' = tokenCounter s" and tm: "timers s' = timers s"
  shows "sessionInv s'"
proof -
  from inv pend have pt: "p = t" "t < tokenCounter s"
    by (auto simp: sessionInv_def)
  from inv pend pt have fresh: "t \<notin> fst ` set (settled s)"
    by (auto simp: sessionInv_def)
  show ?thesis
    using inv pt fresh unfolding sessionInv_def pc st tc tm
    by (auto simp: image_iff)
qed

lemma sessionInv_handleMIRecord:
  assumes "sessionInv s" shows "sessionInv (handleMIRecord r s)"
proof (cases "rtype r = Result \<and> token r \<noteq> None \<and> pendingCommands s (the (token r)) \<noteq> None")
  case True
  then obtain t p where tp: "rtype r = Result" "token r = Some t" "pendingCommands s t = Some p"
    by auto
  show ?thesis
    by (rule sessionInv_retire[OF assms tp(3) handleMIRecord_matched(1,2,3,4)[OF tp]])
next
  case False
  then have "rtype r \<noteq> Result \<or> token r = None \<or> pendingCommands s (the (token r)) = None"
    by auto
  from handleMIRecord_unmatched(1,2,3,4)[OF this] assms show ?thesis
    by (simp add: sessionInv_def)
qed

lemma sessionInv_commandTimeout:
  assumes "sessionInv s" shows "sessionInv (commandTimeout tok c s)"
proof (cases "pendingCommands s tok")
  case None
  then show ?thesis using assms by (simp add: commandTimeout_def)
next
  case (Some p)
  from assms Some have p: "p = tok" by (auto simp: sessionInv_def)
  show ?thesis
    by (rule sessionInv_retire[OF assms Some]) (simp_all add: commandTimeout_fields Some p)
qed

lemma sessionInv_send:
  assumes "sessionInv s" "sendGDBCommand c s = Inr (tok, s')"
  shows "sessionInv s'"
  using assms(1) unfolding sessionInv_def sendGDBCommand_fields[OF assms(2)]
  by (auto simp: image_iff less_Suc_eq)

subsection \<open>Timers\<close>

lemma fire_fields:
  "tokenCounter (foldl (\<lambda>s' tm. commandTimeout (fst (snd tm)) (snd (snd tm)) s') s tms) = tokenCounter s"
  "timers (foldl (\<lambda>s' tm. commandTimeout (fst (snd tm)) (snd (snd tm)) s') s tms) = timers s"
  "clock (foldl (\<lambda>s' tm. commandTimeout (fst (snd tm)) (snd (snd tm)) s') s tms) = clock s"
  by (induction tms arbitrary: s) (simp_all add: commandTimeout_fields)

lemma fire_inv:
  "sessionInv s \<Longrightarrow>
     sessionInv (foldl (\<lambda>s' tm. commandTimeout (fst (snd tm)) (snd (snd tm)) s') s tms)"
  by (induction tms arbitrary: s) (simp_all add: sessionInv_commandTimeout)

lemma fire_pending:
  "pendingCommands (foldl (\<lambda>s' tm. commandTimeout (fst (snd tm)) (snd (snd tm)) s') s tms) t =
     (if t \<in> (\<lambda>tm. fst (snd tm)) ` set tms then None else pendingCommands s t)"
  by (induction tms arbitrary: s) (auto simp: commandTimeout_fields)

lemma fire_settled_mono:
  "set (settled s) \<subseteq>
     set (settled (foldl (\<lambda>s' tm. commandTimeout (fst (snd tm)) (snd (snd tm)) s') s tms))"
proof (induction tms arbitrary: s)
  case Nil
  show ?case by simp
next
  case (Cons tm tms)
  have "set (settled s) \<subseteq> set (settled (commandTimeout (fst (snd tm)) (snd (snd tm)) s))"
    by (auto simp: commandTimeout_fields)
  also have "\<dots> \<subseteq> set (settled (foldl (\<lambda>s' tm. commandTimeout (fst (snd tm)) (snd (snd tm)) s')
      (commandTimeout (fst (snd tm)) (snd (snd tm)) s) tms))"
    by (rule Cons.IH)
  finally show ?case by simp
qed

lemma fire_rejects:
  assumes "(due, tok, c) \<in> set tms" "pendingCommands s tok \<noteq> None"
    and "distinct (map (\<lambda>tm. fst (snd tm)) tms)"
  shows "(tok, Rejected (''Command timeout: '' @ c)) \<in>
     set (settled (foldl (\<lambda>s' tm. commandTimeout (fst (snd tm)) (snd (snd tm)) s') s tms))"
  using assms
proof (induction tms arbitrary: s)
  case Nil
  then show ?case by simp
next
  case (Cons tm tms)
  let ?s1 = "commandTimeout (fst (snd tm)) (snd (snd tm)) s"
  show ?case
  proof (cases "tm = (due, tok, c)")
    case True
    with Cons.prems(2) have "(tok, Rejected (''Command timeout: '' @ c)) \<in> set (settled ?s1)"
      by (simp add: commandTimeout_fields)
    with fire_settled_mono[of ?s1 tms] show ?thesis by auto
  next
    case False
    with Cons.prems(1) have mem: "(due, tok, c) \<in> set tms" by simp
    then have "tok \<in> (\<lambda>tm. fst (snd tm)) ` set tms" by force
    with Cons.prems(3) have "fst (snd tm) \<noteq> tok" by auto
    with Cons.prems(2) have "pendingCommands ?s1 tok \<noteq> None"
      by (simp add: commandTimeout_fields)
    from Cons.IH[OF mem this] Cons.prems(3) show ?thesis by simp
  qed
qed

lemma elapse_fields:
  "tokenCounter (elapse d s) = tokenCounter s"
  "clock (elapse d s) = clock s + d"
  "timers (elapse d s) = filter (\<lambda>tm. clock s + d < fst tm) (timers s)"
  by (simp_all add: elapse_def fire_fields)

lemma elapse_pending:
  "pendingCommands (elapse d s) t =
     (if t \<in> (\<lambda>tm. fst (snd tm)) ` set (filter (\<lambda>tm. fst tm \<le> clock s + d) (timers s))
      then None else pendingCommands s t)"
  by (simp add: elapse_def fire_pending)

lemma elapse_settled_mono: "set (settled s) \<subseteq> set (settled (elapse d s))"
  using fire_settled_mono[of "s\<lparr>clock := clock s + d,
      timers := filter (\<lambda>tm. clock s + d < fst tm) (timers s)\<rparr>"]
  by (simp add: elapse_def)

lemma sessionInv_elapse:
  assumes "sessionInv s" shows "sessionInv (elapse d s)"
proof -
  have "sessionInv (s\<lparr>clock := clock s + d,
      timers := filter (\<lambda>tm. clock s + d < fst tm) (timers s)\<rparr>)"
    using assms by (auto simp: sessionInv_def distinct_map_filter)
  then show ?thesis unfolding elapse_def by (rule fire_inv)
qed

lemma sessionInv_step: "sessionInv s \<Longrightarrow> sessionInv (sessionStep s e)"
  by (cases e)
     (auto simp: sessionInv_handleMIRecord sessionInv_elapse
        split: sum.splits intro: sessionInv_send)

lemma sessionInv_run: "sessionInv s \<Longrightarrow> sessionInv (sessionRun s es)"
  unfolding sessionRun_def by (induction es arbitrary: s) (simp_all add: sessionInv_step)

lemma step_settled_mono: "set (settled s) \<subseteq> set (settled (sessionStep s e))"
proof (cases e)
  case (Send c)
  then show ?thesis by (auto split: sum.splits dest: sendGDBCommand_fields(4))
next
  case (Dispatch r)
  show ?thesis
  proof (cases "rtype r = Result \<and> token r \<noteq> None \<and> pendingCommands s (the (token r)) \<noteq> None")
    case True
    then obtain t p where "rtype r = Result" "token r = Some t" "pendingCommands s t = Some p"
      by auto
    from handleMIRecord_matched(2)[OF this] Dispatch show ?thesis by auto
  next
    case False
    then have "rtype r \<noteq> Result \<or> token r = None \<or> pendingCommands s (the (token r)) = None"
      by auto
    from handleMIRecord_unmatched(2)[OF this] Dispatch show ?thesis by simp
  qed
next
  case (Elapse d)
  then show ?thesis using elapse_settled_mono by simp
qed

lemma step_clock: "clock (sessionStep s e) = clock s + elapsed [e]"
proof (cases e)
  case (Send c)
  then show ?thesis by (auto split: sum.splits dest: sendGDBCommand_fields(6))
next
  case (Dispatch r)
  show ?thesis
  proof (cases "rtype r = Result \<and> token r \<noteq> None \<and> pendingCommands s (the (token r)) \<noteq> None")
    case True
    then obtain t p where "rtype r = Result" "token r = Some t" "pendingCommands s t = Some p"
      by auto
    from handleMIRecord_matched(5)[OF this] Dispatch show ?thesis by auto
  next
    case False
    then have "rtype r \<noteq> Result \<or> token r = None \<or> pendingCommands s (the (token r)) = None"
      by auto
    from handleMIRecord_unmatched(5)[OF this] Dispatch show ?thesis by simp
  qed
next
  case (Elapse d)
  then show ?thesis by (simp add: elapse_fields)
qed

subsection \<open>A command without an answer\<close>

lemma timedOut_step:
  assumes inv: "sessionInv s" and none: "pendingCommands s tok = None"
    and rej: "(tok, out) \<in> set (settled s)"
  shows "pendingCommands (sessionStep s e) tok = None \<and> (tok, out) \<in> set (settled (sessionStep s e))"
proof -
  from inv rej have old: "tok < tokenCounter s"
    by (force simp: sessionInv_def)
  have "pendingCommands (sessionStep s e) tok = None"
  proof (cases e)
    case (Send c)
    show ?thesis
    proof (cases "sendGDBCommand c s")
      case (Inl a)
      with Send none show ?thesis by simp
    next
      case (Inr b)
      obtain t' s' where b: "b = (t', s')" by (cases b)
      from sendGDBCommand_fields(1,3)[OF Inr[unfolded b]] old none Send Inr b
      show ?thesis by simp
    qed
  next
    case (Dispatch r)
    show ?thesis
    proof (cases "rtype r = Result \<and> token r \<noteq> None \<and> pendingCommands s (the (token r)) \<noteq> None")
      case True
      then obtain t p where "rtype r = Result" "token r = Some t" "pendingCommands s t = Some p"
        by auto
      from handleMIRecord_matched(1)[OF this] Dispatch none show ?thesis by auto
    next
      case False
      then have "rtype r \<noteq> Result \<or> token r = None \<or> pendingCommands s (the (token r)) = None"
        by auto
      from handleMIRecord_unmatched(1)[OF this] Dispatch none show ?thesis by simp
    qed
  next
    case (Elapse d)
    then show ?thesis using none by (simp add: elapse_pending)
  qed
  with rej step_settled_mono[of s e] show ?thesis by auto
qed

lemma timedOut_run:
  assumes "sessionInv s" "pendingCommands s tok = None" "(tok, out) \<in> set (settled s)"
  shows "pendingCommands (sessionRun s es) tok = None \<and> (tok, out) \<in> set (settled (sessionRun s es))"
  using assms unfolding sessionRun_def
proof (induction es arbitrary: s)
  case Nil
  then show ?case by simp
next
  case (Cons e es)
  from timedOut_step[OF Cons.prems] sessionInv_step[OF Cons.prems(1)]
  show ?case using Cons.IH[of "sessionStep s e"] by simp
qed

lemma waiting_step:
  assumes inv: "sessionInv s" and pend: "pendingCommands s tok = Some tok"
    and tmr: "(due, tok, c) \<in> set (timers s)" and na: "\<not> answers tok e"
    and before: "clock s < due"
  shows "if clock (sessionStep s e) < due
         then pendingCommands (sessionStep s e) tok = Some tok \<and>
              (due, tok, c) \<in> set (timers (sessionStep s e))
         else pendingCommands (sessionStep s e) tok = None \<and>
              (tok, Rejected (''Command timeout: '' @ c)) \<in> set (settled (sessionStep s e))"
proof (cases e)
  case (Send c')
  show ?thesis
  proof (cases "sendGDBCommand c' s")
    case (Inl a)
    with Send pend tmr before show ?thesis by simp
  next
    case (Inr b)
    obtain t' s' where b: "b = (t', s')" by (cases b)
    from inv pend have "tok < tokenCounter s" by (auto simp: sessionInv_def)
    with sendGDBCommand_fields(1,3,5,6)[OF Inr[unfolded b]] Send Inr b pend tmr before
    show ?thesis by simp
  qed
next
  case (Dispatch r)
  show ?thesis
  proof (cases "rtype r = Result \<and> token r \<noteq> None \<and> pendingCommands s (the (token r)) \<noteq> None")
    case True
    then obtain t p where tp: "rtype r = Result" "token r = Some t" "pendingCommands s t = Some p"
      by auto
    with na Dispatch have "t \<noteq> tok" by simp
    with handleMIRecord_matched(1,4,5)[OF tp] Dispatch pend tmr before show ?thesis by simp
  next
    case False
    then have "rtype r \<noteq> Result \<or> token r = None \<or> pendingCommands s (the (token r)) = None"
      by auto
    from handleMIRecord_unmatched(1,4,5)[OF this] Dispatch pend tmr before show ?thesis by simp
  qed
next
  case (Elapse d)
  let ?dueNow = "filter (\<lambda>tm. fst tm \<le> clock s + d) (timers s)"
  from inv have dist: "distinct (map (\<lambda>tm. fst (snd tm)) (timers s))"
    by (simp add: sessionInv_def)
  show ?thesis
  proof (cases "clock s + d < due")
    case True
    have "tok \<notin> (\<lambda>tm. fst (snd tm)) ` set ?dueNow"
    proof
      assume "tok \<in> (\<lambda>tm. fst (snd tm)) ` set ?dueNow"
      then obtain tm where tm: "tm \<in> set (timers s)" "fst tm \<le> clock s + d" "fst (snd tm) = tok"
        by auto
      from tm(2) True have "fst tm \<noteq> due" by simp
      then have "tm \<noteq> (due, tok, c)" by auto
      with tm(1,3) tmr dist show False
        by (auto simp: distinct_map inj_on_def)
    qed
    with True Elapse pend tmr show ?thesis
      by (simp add: elapse_fields elapse_pending)
  next
    case False
    then have mem: "(due, tok, c) \<in> set ?dueNow" using tmr by simp
    then have "tok \<in> (\<lambda>tm. fst (snd tm)) ` set ?dueNow" by force
    then have none: "pendingCommands (elapse d s) tok = None"
      by (simp add: elapse_pending)
    have "(tok, Rejected (''Command timeout: '' @ c)) \<in> set (settled (elapse d s))"
      unfolding elapse_def
      by (rule fire_rejects[OF mem]) (use pend dist in \<open>simp_all add: distinct_map_filter\<close>)
    with none False Elapse show ?thesis by (simp add: elapse_fields)
  qed
qed

lemma waiting_run:
  assumes "sessionInv s" "pendingCommands s tok = Some tok" "(due, tok, c) \<in> set (timers s)"
    and "noAnswerFor tok es" "clock s < due"
  shows "if clock s + elapsed es < due
         then pendingCommands (sessionRun s es) tok = Some tok
         else pendingCommands (sessionRun s es) tok = None \<and>
              (tok, Rejected (''Command timeout: '' @ c)) \<in> set (settled (sessionRun s es))"
  using assms
proof (induction es arbitrary: s)
  case Nil
  then show ?case by (simp add: sessionRun_def)
next
  case (Cons e es)
  let ?s1 = "sessionStep s e"
  from Cons.prems(4) have na: "\<not> answers tok e" and rest: "noAnswerFor tok es"
    by (simp_all add: noAnswerFor_def)
  have inv1: "sessionInv ?s1" by (rule sessionInv_step[OF Cons.prems(1)])
  have clk: "clock ?s1 = clock s + elapsed [e]" by (rule step_clock)
  have el: "elapsed (e # es) = elapsed [e] + elapsed es" by (cases e) simp_all
  have run: "sessionRun s (e # es) = sessionRun ?s1 es" by (simp add: sessionRun_def)
  note st = waiting_step[OF Cons.prems(1,2,3) na Cons.prems(5)]
  show ?case
  proof (cases "clock ?s1 < due")
    case True
    with st have "pendingCommands ?s1 tok = Some tok" "(due, tok, c) \<in> set (timers ?s1)"
      by simp_all
    from Cons.IH[OF inv1 this rest True] show ?thesis
      unfolding run el clk by (simp add: add.assoc)
  next
    case False
    with st have d: "pendingCommands ?s1 tok = None"
      "(tok, Rejected (''Command timeout: '' @ c)) \<in> set (settled ?s1)" by simp_all
    from timedOut_run[OF inv1 d] False show ?thesis
      unfolding run el clk by simp
  qed
qed

subsection \<open>The claims about the correlation\<close>

lemma parseLine_exit:
  "parseLine 0 ''1000^exit'' =
     Some (Some \<lparr>rtype = Result, token = Some 1000, klass = Some ''exit'', results = Some [],
                 outputText = None\<rparr>)"
  by (simp add: line_defs)

lemma sent_one:
  "sessionRun (newSession\<lparr>gdbChannel := True\<rparr>) [Send c] =
     \<lparr>gdbChannel = True, pathMapper = None, tokenCounter = 1001,
      pendingCommands = [1000 \<mapsto> 1000], settled = [], timers = [(5000, 1000, c)], clock = 0,
      channelWrites = [fullCommand 1000 c @ [newline]], commandLog = [(1000, c)],
      isRunning = False, currentThreadId = 1, sentEvents = [], gdbBreakpoints = Map.empty,
      pendingBreakpoints = [], breakpoints = Map.empty\<rparr>"
  by (simp add: sessionRun_def sendGDBCommand_def newSession_def commandTimeoutMs_def)

text \<open>
  C1, as the claim states it, fails: a result record whose class is none of
  \<^verbatim>\<open>done\<close>, \<^verbatim>\<open>running\<close> and \<^verbatim>\<open>error\<close> also retires the pending command of its token,
  with success. After \<^verbatim>\<open>gdb-exit\<close> is sent with token 1000, the line \<^verbatim>\<open>1000^exit\<close>
  (what the debugger answers to it) resolves the command, well before the timeout.
\<close>

theorem result_class_exit_resolves:
  "parseLine 0 ''1000^exit'' =
     Some (Some \<lparr>rtype = Result, token = Some 1000, klass = Some ''exit'', results = Some [],
                 outputText = None\<rparr>) \<and>
   pendingCommands (sessionRun (newSession\<lparr>gdbChannel := True\<rparr>) [Send ''gdb-exit'']) 1000
     = Some 1000 \<and>
   Some ''exit'' \<noteq> Some ''done'' \<and> Some ''exit'' \<noteq> Some ''running'' \<and>
   Some ''exit'' \<noteq> Some ''error'' \<and>
   clock (handleMIRecord
       \<lparr>rtype = Result, token = Some 1000, klass = Some ''exit'', results = Some [],
        outputText = None\<rparr>
       (sessionRun (newSession\<lparr>gdbChannel := True\<rparr>) [Send ''gdb-exit''])) < 5000 \<and>
   pendingCommands (handleMIRecord
       \<lparr>rtype = Result, token = Some 1000, klass = Some ''exit'', results = Some [],
        outputText = None\<rparr>
       (sessionRun (newSession\<lparr>gdbChannel := True\<rparr>) [Send ''gdb-exit''])) 1000 = None \<and>
   settled (handleMIRecord
       \<lparr>rtype = Result, token = Some 1000, klass = Some ''exit'', results = Some [],
        outputText = None\<rparr>
       (sessionRun (newSession\<lparr>gdbChannel := True\<rparr>) [Send ''gdb-exit''])) =
     [(1000, Resolved \<lparr>rtype = Result, token = Some 1000, klass = Some ''exit'',
                       results = Some [], outputText = None\<rparr>)]"
  by (simp add: parseLine_exit sent_one handleMIRecord_def resolve_def commandTimeoutMs_def)

text \<open>
  C1, amended. In every state of a session: (1) a result record whose token has a
  pending command retires that command, removing it from the table and settling its
  promise once: rejected when the class is \<^verbatim>\<open>error\<close>, with the text of \<^verbatim>\<open>msg\<close> when
  that is a non-empty string and with \<^verbatim>\<open>GDB command failed\<close> otherwise, and resolved
  with the record for every other class (\<^verbatim>\<open>done\<close>, \<^verbatim>\<open>running\<close>, \<^verbatim>\<open>exit\<close>,
  \<^verbatim>\<open>connected\<close>, or none); (2) a command that is sent and gets no result record with
  its token stays pending and unsettled while less than 5000 milliseconds have passed,
  and is retired with the rejection \<^verbatim>\<open>Command timeout: <command>\<close> once 5000 have
  passed; (3) whatever is sent, dispatched and however time passes, no promise is
  settled twice.
\<close>

theorem pending_command_retired_once:
  assumes "sessionInv s"
  shows
    "(rtype r = Result \<and> token r = Some t \<and> pendingCommands s t \<noteq> None \<longrightarrow>
        pendingCommands (handleMIRecord r s) = (pendingCommands s)(t := None) \<and>
        settled (handleMIRecord r s) = settled s @ [(t, resultOutcome r)]) \<and>
     (sendGDBCommand c s = Inr (tok, s') \<and> noAnswerFor tok es \<longrightarrow>
        (if elapsed es < 5000
         then pendingCommands (sessionRun s' es) tok = Some tok \<and>
              tok \<notin> fst ` set (settled (sessionRun s' es))
         else pendingCommands (sessionRun s' es) tok = None \<and>
              (tok, Rejected (''Command timeout: '' @ c)) \<in> set (settled (sessionRun s' es)))) \<and>
     distinct (map fst (settled (sessionRun s es')))"
proof (intro conjI impI)
  assume a: "rtype r = Result \<and> token r = Some t \<and> pendingCommands s t \<noteq> None"
  then obtain p where p: "pendingCommands s t = Some p" by auto
  with assms have "p = t" by (auto simp: sessionInv_def)
  with a p handleMIRecord_matched(1,2)[of r t s p]
  show "pendingCommands (handleMIRecord r s) = (pendingCommands s)(t := None)"
    and "settled (handleMIRecord r s) = settled s @ [(t, resultOutcome r)]"
    by simp_all
next
  assume a: "sendGDBCommand c s = Inr (tok, s') \<and> noAnswerFor tok es"
  then have send: "sendGDBCommand c s = Inr (tok, s')" and na: "noAnswerFor tok es"
    by simp_all
  have inv': "sessionInv s'" by (rule sessionInv_send[OF assms send])
  note f = sendGDBCommand_fields[OF send]
  have pend: "pendingCommands s' tok = Some tok" by (simp add: f(3))
  have tmr: "(clock s' + commandTimeoutMs, tok, c) \<in> set (timers s')" by (simp add: f(5,6))
  have before: "clock s' < clock s' + commandTimeoutMs" by (simp add: commandTimeoutMs_def)
  note w = waiting_run[OF inv' pend tmr na before]
  have invr: "sessionInv (sessionRun s' es)" by (rule sessionInv_run[OF inv'])
  show "if elapsed es < 5000
        then pendingCommands (sessionRun s' es) tok = Some tok \<and>
             tok \<notin> fst ` set (settled (sessionRun s' es))
        else pendingCommands (sessionRun s' es) tok = None \<and>
             (tok, Rejected (''Command timeout: '' @ c)) \<in> set (settled (sessionRun s' es))"
  proof (cases "elapsed es < 5000")
    case True
    with w have p: "pendingCommands (sessionRun s' es) tok = Some tok"
      by (simp add: commandTimeoutMs_def)
    with invr have "tok \<notin> fst ` set (settled (sessionRun s' es))"
      unfolding sessionInv_def by force
    with p True show ?thesis by simp
  next
    case False
    with w show ?thesis by (simp add: commandTimeoutMs_def)
  qed
next
  from sessionInv_run[OF assms, of es']
  show "distinct (map fst (settled (sessionRun s es')))" by (simp add: sessionInv_def)
qed

lemma sessionInv_sent_one: "sessionInv (sessionRun (newSession\<lparr>gdbChannel := True\<rparr>) [Send c])"
  by (rule sessionInv_run[OF sessionInv_newSession])

theorem pending_command_retired_once_witness:
  "sessionInv (sessionRun (newSession\<lparr>gdbChannel := True\<rparr>) [Send ''exec-run'']) \<and>
   settled (handleMIRecord
       \<lparr>rtype = Result, token = Some 1000, klass = Some ''error'',
        results = Some [(''msg'', MIString ''No symbol'')], outputText = None\<rparr>
       (sessionRun (newSession\<lparr>gdbChannel := True\<rparr>) [Send ''exec-run''])) =
     [(1000, Rejected ''No symbol'')] \<and>
   pendingCommands (handleMIRecord
       \<lparr>rtype = Result, token = Some 1000, klass = Some ''error'',
        results = Some [(''msg'', MIString ''No symbol'')], outputText = None\<rparr>
       (sessionRun (newSession\<lparr>gdbChannel := True\<rparr>) [Send ''exec-run''])) 1000 = None \<and>
   pendingCommands (sessionRun (newSession\<lparr>gdbChannel := True\<rparr>)
       [Send ''exec-run'', Send ''exec-next'', Elapse 4999]) 1001 = Some 1001 \<and>
   (1001, Rejected ''Command timeout: exec-next'') \<in>
     set (settled (sessionRun (newSession\<lparr>gdbChannel := True\<rparr>)
            [Send ''exec-run'', Send ''exec-next'', Elapse 4999, Elapse 1])) \<and>
   distinct (map fst (settled (sessionRun (newSession\<lparr>gdbChannel := True\<rparr>)
            [Send ''exec-run'', Send ''exec-next'', Elapse 4999, Elapse 1])))"
proof -
  let ?s1 = "sessionRun (newSession\<lparr>gdbChannel := True\<rparr>) [Send ''exec-run'']"
  let ?s2 = "sessionRun (newSession\<lparr>gdbChannel := True\<rparr>) [Send ''exec-run'', Send ''exec-next'']"
  let ?r = "\<lparr>rtype = Result, token = Some 1000, klass = Some ''error'',
        results = Some [(''msg'', MIString ''No symbol'')], outputText = None\<rparr>"
  have inv: "sessionInv ?s1" by (rule sessionInv_sent_one)
  have send: "sendGDBCommand ''exec-next'' ?s1 = Inr (1001, ?s2)"
    by (simp add: sessionRun_def sendGDBCommand_def newSession_def)
  have run: "sessionRun ?s2 [Elapse 4999, Elapse 1] =
      sessionRun (newSession\<lparr>gdbChannel := True\<rparr>)
        [Send ''exec-run'', Send ''exec-next'', Elapse 4999, Elapse 1]"
    "sessionRun ?s2 [Elapse 4999] =
      sessionRun (newSession\<lparr>gdbChannel := True\<rparr>)
        [Send ''exec-run'', Send ''exec-next'', Elapse 4999]"
    by (simp_all add: sessionRun_def)
  have run2: "sessionRun ?s1 [Send ''exec-next'', Elapse 4999, Elapse 1] =
      sessionRun (newSession\<lparr>gdbChannel := True\<rparr>)
        [Send ''exec-run'', Send ''exec-next'', Elapse 4999, Elapse 1]"
    by (simp add: sessionRun_def)
  have pend: "pendingCommands ?s1 1000 \<noteq> None" by (simp add: sent_one)
  have out: "resultOutcome ?r = Rejected ''No symbol''"
    by (simp add: resultOutcome_def orElse_def truthy_def getStringValue_def findResult_def)
  have old: "settled ?s1 = []" by (simp add: sent_one)
  note T = pending_command_retired_once[OF inv,
      of ?r 1000 "''exec-next''" 1001 ?s2
         "[Elapse 4999, Elapse 1]" "[Send ''exec-next'', Elapse 4999, Elapse 1]"]
  note U = pending_command_retired_once[OF inv,
      of ?r 1000 "''exec-next''" 1001 ?s2 "[Elapse 4999]" "[]"]
  from U send have early: "pendingCommands (sessionRun ?s2 [Elapse 4999]) 1001 = Some 1001"
    by (simp add: noAnswerFor_def)
  from T pend send early show ?thesis
    unfolding run run2
    by (simp add: inv out old noAnswerFor_def)
qed

text \<open>
  C2. A record that is not a result record, a result record without a token, and a
  result record whose token has no pending command leave the table of pending commands
  as it is and settle no promise.
\<close>

theorem unmatched_record_keeps_pending_commands:
  assumes "rtype r \<noteq> Result \<or> token r = None \<or> pendingCommands s (the (token r)) = None"
  shows "pendingCommands (handleMIRecord r s) = pendingCommands s \<and>
         settled (handleMIRecord r s) = settled s"
  using handleMIRecord_unmatched(1,2)[OF assms] by simp

text \<open>
  The type of a parsed record follows from the character after the token: only a line
  with \<^verbatim>\<open>^\<close> there gives a result record.
\<close>

lemma parseLine_result_only_from_caret:
  assumes "parseLine fuel ln = Some (Some r)" "rtype r = Result"
  shows "startsWithChar (CHR ''^'')
           (case tokenMatch (trimJS ln) of None \<Rightarrow> trimJS ln | Some (t, rest) \<Rightarrow> rest)"
  using assms
  by (auto simp: parseLine_def Let_def parseAsyncRecord_def parseStreamRecord_def
        split: if_splits option.splits prod.splits)

lemma parseLine_console:
  "parseLine 0 ''~\"Reading symbols\"'' =
     Some (Some \<lparr>rtype = Console, token = None, klass = None, results = None,
                 outputText = Some ''Reading symbols''\<rparr>)"
  by (simp add: line_defs unescapeString_def)

theorem unmatched_record_keeps_pending_commands_witness:
  "parseLine 0 ''~\"Reading symbols\"'' =
     Some (Some \<lparr>rtype = Console, token = None, klass = None, results = None,
                 outputText = Some ''Reading symbols''\<rparr>) \<and>
   pendingCommands (handleMIRecord
       \<lparr>rtype = Console, token = None, klass = None, results = None,
        outputText = Some ''Reading symbols''\<rparr>
       (sessionRun (newSession\<lparr>gdbChannel := True\<rparr>) [Send ''exec-run''])) =
     pendingCommands (sessionRun (newSession\<lparr>gdbChannel := True\<rparr>) [Send ''exec-run'']) \<and>
   pendingCommands (sessionRun (newSession\<lparr>gdbChannel := True\<rparr>) [Send ''exec-run'']) 1000 =
     Some 1000 \<and>
   settled (handleMIRecord
       \<lparr>rtype = Console, token = None, klass = None, results = None,
        outputText = Some ''Reading symbols''\<rparr>
       (sessionRun (newSession\<lparr>gdbChannel := True\<rparr>) [Send ''exec-run''])) = [] \<and>
   pendingCommands (handleMIRecord
       \<lparr>rtype = Result, token = Some 999, klass = Some ''done'', results = Some [],
        outputText = None\<rparr>
       (sessionRun (newSession\<lparr>gdbChannel := True\<rparr>) [Send ''exec-run''])) =
     pendingCommands (sessionRun (newSession\<lparr>gdbChannel := True\<rparr>) [Send ''exec-run''])"
  using unmatched_record_keeps_pending_commands
          [of "\<lparr>rtype = Console, token = None, klass = None, results = None,
                outputText = Some ''Reading symbols''\<rparr>"
              "sessionRun (newSession\<lparr>gdbChannel := True\<rparr>) [Send ''exec-run'']"]
        unmatched_record_keeps_pending_commands
          [of "\<lparr>rtype = Result, token = Some 999, klass = Some ''done'', results = Some [],
                outputText = None\<rparr>"
              "sessionRun (newSession\<lparr>gdbChannel := True\<rparr>) [Send ''exec-run'']"]
  by (simp add: parseLine_console sent_one)

section \<open>Stop events\<close>

text \<open>The mapping of \<^verbatim>\<open>handleStopped\<close>, reason by reason.\<close>

lemma handleStopped_mapping:
  "sentEvents (handleStopped ev s) =
     sentEvents s @
       [if reason ev = ''exited-normally'' \<or> reason ev = ''exited'' then TerminatedEvent
        else if reason ev = ''breakpoint-hit'' then StoppedEvent ''breakpoint'' (currentThreadId s)
        else if reason ev = ''end-stepping-range'' then StoppedEvent ''step'' (currentThreadId s)
        else if reason ev = ''signal-received'' then StoppedEvent ''exception'' (currentThreadId s)
        else StoppedEvent ''pause'' (currentThreadId s)]"
  by (simp add: handleStopped_def sendEvent_def)

lemma parseLine_exited_signalled:
  "parseLine 3 ''*stopped,reason=\"exited-signalled\",signal-name=\"SIGSEGV\"'' =
     Some (Some \<lparr>rtype = Exec, token = None, klass = Some ''stopped'',
                 results = Some [(''reason'', MIString ''exited-signalled''),
                                 (''signal-name'', MIString ''SIGSEGV'')],
                 outputText = None\<rparr>)"
  by code_simp

text \<open>
  C6 (the code does not do what the claim says). The claim: a stop whose reason contains
  \<^verbatim>\<open>exited\<close>, such as \<^verbatim>\<open>exited-signalled\<close>, ends the session. \<^verbatim>\<open>handleStopped\<close>
  compares the reason with \<^verbatim>\<open>exited-normally\<close> and \<^verbatim>\<open>exited\<close> only: for the line
  \<^verbatim>\<open>*stopped,reason="exited-signalled",signal-name="SIGSEGV"\<close> the session sends a
  stopped event with reason \<^verbatim>\<open>pause\<close> and no terminated event.
\<close>

theorem stopped_exited_signalled_is_pause:
  "parseLine 3 ''*stopped,reason=\"exited-signalled\",signal-name=\"SIGSEGV\"'' =
     Some (Some \<lparr>rtype = Exec, token = None, klass = Some ''stopped'',
                 results = Some [(''reason'', MIString ''exited-signalled''),
                                 (''signal-name'', MIString ''SIGSEGV'')],
                 outputText = None\<rparr>) \<and>
   reason (parseStoppedEvent [(''reason'', MIString ''exited-signalled''),
                              (''signal-name'', MIString ''SIGSEGV'')]) = ''exited-signalled'' \<and>
   sentEvents (handleMIRecord
       \<lparr>rtype = Exec, token = None, klass = Some ''stopped'',
        results = Some [(''reason'', MIString ''exited-signalled''),
                        (''signal-name'', MIString ''SIGSEGV'')],
        outputText = None\<rparr> newSession) = [StoppedEvent ''pause'' 1]"
  by (simp add: parseLine_exited_signalled handleMIRecord_def handleStopped_mapping
        parseStoppedEvent_def orElse_def truthy_def getStringValue_def findResult_def
        newSession_def)

text \<open>
  C10. An exec record of class \<^verbatim>\<open>stopped\<close> without a \<^verbatim>\<open>reason\<close> field gets the reason
  \<^verbatim>\<open>signal-received\<close> from \<^verbatim>\<open>parseStoppedEvent\<close>, and the session reports it as a
  stopped event with reason \<^verbatim>\<open>exception\<close>.
\<close>

theorem stopped_without_reason_is_exception:
  assumes "rtype r = Exec" "klass r = Some ''stopped''"
    and "findResult (results r) ''reason'' = None"
  shows "reason (parseStoppedEvent (case results r of None \<Rightarrow> [] | Some rs \<Rightarrow> rs)) =
           ''signal-received'' \<and>
         sentEvents (handleMIRecord r s) =
           sentEvents s @ [StoppedEvent ''exception'' (currentThreadId s)]"
proof -
  have "findResult (Some (case results r of None \<Rightarrow> [] | Some rs \<Rightarrow> rs)) ''reason'' = None"
    using assms(3) by (simp add: findResult_def split: option.splits)
  then have rs: "reason (parseStoppedEvent (case results r of None \<Rightarrow> [] | Some rs \<Rightarrow> rs)) =
      ''signal-received''"
    by (simp add: parseStoppedEvent_def orElse_def truthy_def getStringValue_def)
  then show ?thesis
    using assms(1,2) by (simp add: handleMIRecord_def handleStopped_mapping)
qed

lemma parseLine_stopped_no_reason:
  "parseLine 3 ''*stopped,thread-id=\"1\"'' =
     Some (Some \<lparr>rtype = Exec, token = None, klass = Some ''stopped'',
                 results = Some [(''thread-id'', MIString ''1'')], outputText = None\<rparr>)"
  by code_simp

theorem stopped_without_reason_is_exception_witness:
  "parseLine 3 ''*stopped,thread-id=\"1\"'' =
     Some (Some \<lparr>rtype = Exec, token = None, klass = Some ''stopped'',
                 results = Some [(''thread-id'', MIString ''1'')], outputText = None\<rparr>) \<and>
   findResult (Some [(''thread-id'', MIString ''1'')]) ''reason'' = None \<and>
   reason (parseStoppedEvent [(''thread-id'', MIString ''1'')]) = ''signal-received'' \<and>
   sentEvents (handleMIRecord
       \<lparr>rtype = Exec, token = None, klass = Some ''stopped'',
        results = Some [(''thread-id'', MIString ''1'')], outputText = None\<rparr> newSession) =
     [StoppedEvent ''exception'' 1]"
  using stopped_without_reason_is_exception
          [of "\<lparr>rtype = Exec, token = None, klass = Some ''stopped'',
                results = Some [(''thread-id'', MIString ''1'')], outputText = None\<rparr>" newSession]
  by (simp add: parseLine_stopped_no_reason findResult_def newSession_def)

section \<open>Scenarios of the specification\<close>

text \<open>
  The result line \<^verbatim>\<open>2001^error,msg="No symbol \"x\" in current context."\<close> rejects the
  pending command of token 2001 with the message \<^verbatim>\<open>No symbol "x" in current context.\<close>
\<close>

lemma scenario_error_line:
  "parseLine 3 (''2001^error,msg=\"No symbol '' @ [backslash, dquote] @ ''x'' @
      [backslash, dquote] @ '' in current context.\"'') =
     Some (Some \<lparr>rtype = Result, token = Some 2001, klass = Some ''error'',
                 results = Some [(''msg'', MIString ''No symbol \"x\" in current context.'')],
                 outputText = None\<rparr>)"
  by code_simp

lemma scenario_error_rejects:
  "settled (handleMIRecord
       \<lparr>rtype = Result, token = Some 2001, klass = Some ''error'',
        results = Some [(''msg'', MIString ''No symbol \"x\" in current context.'')],
        outputText = None\<rparr>
       (newSession\<lparr>pendingCommands := [2001 \<mapsto> 2001]\<rparr>)) =
     [(2001, Rejected ''No symbol \"x\" in current context.'')]"
  by (simp add: handleMIRecord_def reject_def orElse_def truthy_def getStringValue_def
        findResult_def newSession_def)

text \<open>
  The line \<^verbatim>\<open>1000^done\<close> resolves the pending command of token 1000 with an empty
  field list.
\<close>

lemma scenario_done_resolves:
  "parseLine 0 ''1000^done'' =
     Some (Some \<lparr>rtype = Result, token = Some 1000, klass = Some ''done'', results = Some [],
                 outputText = None\<rparr>) \<and>
   settled (handleMIRecord
       \<lparr>rtype = Result, token = Some 1000, klass = Some ''done'', results = Some [],
        outputText = None\<rparr>
       (newSession\<lparr>pendingCommands := [1000 \<mapsto> 1000]\<rparr>)) =
     [(1000, Resolved \<lparr>rtype = Result, token = Some 1000, klass = Some ''done'',
                       results = Some [], outputText = None\<rparr>)]"
  by (simp add: line_defs handleMIRecord_def resolve_def newSession_def)

text \<open>The stop at a breakpoint, with its frame.\<close>

lemma scenario_breakpoint_hit_line:
  "parseLine 12 ''*stopped,reason=\"breakpoint-hit\",bkptno=\"1\",thread-id=\"1\",frame={addr=\"0x4005d6\",func=\"main\",file=\"t.c\",line=\"10\"}'' =
     Some (Some \<lparr>rtype = Exec, token = None, klass = Some ''stopped'',
                 results = Some [(''reason'', MIString ''breakpoint-hit''),
                                 (''bkptno'', MIString ''1''), (''thread-id'', MIString ''1''),
                                 (''frame'', MITuple [(''addr'', MIString ''0x4005d6''),
                                                      (''func'', MIString ''main''),
                                                      (''file'', MIString ''t.c''),
                                                      (''line'', MIString ''10'')])],
                 outputText = None\<rparr>)"
  by code_simp

lemma scenario_breakpoint_hit_event:
  "parseStoppedEvent [(''reason'', MIString ''breakpoint-hit''),
                      (''bkptno'', MIString ''1''), (''thread-id'', MIString ''1''),
                      (''frame'', MITuple [(''addr'', MIString ''0x4005d6''),
                                           (''func'', MIString ''main''),
                                           (''file'', MIString ''t.c''),
                                           (''line'', MIString ''10'')])] =
     \<lparr>reason = ''breakpoint-hit'', threadId = Some (Num 1), breakpointId = Some (Num 1),
      signal = None, exitCode = None,
      frame = Some \<lparr>level = Num 0, addr = ''0x4005d6'', func = ''main'', fileName = Some ''t.c'',
                    fullname = None, line = Some (Num 10)\<rparr>\<rparr>"
  by code_simp

lemma scenario_breakpoint_hit_stops:
  "sentEvents (handleMIRecord
       \<lparr>rtype = Exec, token = None, klass = Some ''stopped'',
        results = Some [(''reason'', MIString ''breakpoint-hit''),
                        (''bkptno'', MIString ''1''), (''thread-id'', MIString ''1'')],
        outputText = None\<rparr> newSession) = [StoppedEvent ''breakpoint'' 1]"
  by (simp add: handleMIRecord_def handleStopped_mapping parseStoppedEvent_def orElse_def
        truthy_def getStringValue_def findResult_def newSession_def)

text \<open>
  A string value keeps the character after a backslash and drops the backslash: the
  field \<^verbatim>\<open>msg="a\nb"\<close> is read as \<^verbatim>\<open>anb\<close>.
\<close>

lemma string_value_drops_backslash:
  "parseResults 3 (''msg=\"a'' @ [backslash] @ ''nb\"'') = Some [(''msg'', MIString ''anb'')]"
  by code_simp

section \<open>Reconnection\<close>

lemma updateSessionState_fields:
  "reconnectAttempts (updateSessionState k st m) = reconnectAttempts m"
  "scheduledReconnects (updateSessionState k st m) = scheduledReconnects m"
  "emitted (updateSessionState k st m) = emitted m"
  "now (updateSessionState k st m) = now m"
  "(sessions (updateSessionState k st m) k = None) = (sessions m k = None)"
  by (simp_all add: updateSessionState_def split: option.splits)

lemma handleDisconnect_below_limit:
  assumes "sessions m k \<noteq> None" "attemptsSoFar m k < 3"
  shows "scheduledReconnects (handleDisconnect k details m) =
           scheduledReconnects m @ [(now m + 2000, k)]"
    and "reconnectAttempts (handleDisconnect k details m) =
           (reconnectAttempts m)(k \<mapsto> attemptsSoFar m k + 1)"
    and "emitted (handleDisconnect k details m) = emitted m @ [(''disconnected'', host details)]"
    and "sessions (handleDisconnect k details m) k \<noteq> None"
  using assms
  by (auto simp: handleDisconnect_def attemptReconnect_def emit_def maxReconnectAttempts_def
        reconnectDelay_def updateSessionState_def attemptsSoFar_def split: option.splits)

lemma handleDisconnect_at_limit:
  assumes "sessions m k \<noteq> None" "3 \<le> attemptsSoFar m k"
  shows "scheduledReconnects (handleDisconnect k details m) = scheduledReconnects m"
    and "reconnectAttempts (handleDisconnect k details m) = reconnectAttempts m"
    and "emitted (handleDisconnect k details m) =
           emitted m @ [(''disconnected'', host details), (''reconnectFailed'', host details)]"
    and "sessions (handleDisconnect k details m) k \<noteq> None"
  using assms
  by (auto simp: handleDisconnect_def emit_def maxReconnectAttempts_def
        updateSessionState_def attemptsSoFar_def split: option.splits)

lemma exhausted_step:
  assumes "sessions m k \<noteq> None" "3 \<le> attemptsSoFar m k" "\<not> isReady e"
  shows "scheduledReconnects (sshStep k details m e) = scheduledReconnects m \<and>
         sessions (sshStep k details m e) k \<noteq> None \<and>
         3 \<le> attemptsSoFar (sshStep k details m e) k"
proof (cases e)
  case ClientClose
  with handleDisconnect_at_limit(1,2,4)[OF assms(1,2), of details] assms(2)
  show ?thesis by (simp add: attemptsSoFar_def)
next
  case ClientError
  with assms(1,2) show ?thesis
    by (simp add: connectError_def updateSessionState_fields attemptsSoFar_def)
next
  case (ClientReady c)
  with assms(3) show ?thesis by (simp add: isReady_def)
qed

lemma exhausted_run:
  assumes "sessions m k \<noteq> None" "3 \<le> attemptsSoFar m k" "list_all (\<lambda>e. \<not> isReady e) es"
  shows "scheduledReconnects (foldl (sshStep k details) m es) = scheduledReconnects m"
  using assms
proof (induction es arbitrary: m)
  case Nil
  then show ?case by simp
next
  case (Cons e es)
  from Cons.prems(3) have e: "\<not> isReady e" and es: "list_all (\<lambda>e. \<not> isReady e) es"
    by simp_all
  from exhausted_step[OF Cons.prems(1,2) e, of details] Cons.IH[OF _ _ es, of "sshStep k details m e"]
  show ?case by simp
qed

text \<open>
  C8. When a client of an established session closes: if fewer than 3 reconnections
  have been attempted, exactly one reconnection is scheduled, 2000 milliseconds from
  now, and the counter grows by one; if 3 have been attempted, the manager emits
  \<^verbatim>\<open>reconnectFailed\<close>, schedules nothing and leaves the counter, and from then on no
  sequence of closes and errors of that session's clients schedules a reconnection.
\<close>

theorem reconnection_is_bounded:
  assumes "sessions m k \<noteq> None"
  shows
    "(attemptsSoFar m k < 3 \<longrightarrow>
        scheduledReconnects (handleDisconnect k details m) =
          scheduledReconnects m @ [(now m + 2000, k)] \<and>
        attemptsSoFar (handleDisconnect k details m) k = attemptsSoFar m k + 1 \<and>
        emitted (handleDisconnect k details m) = emitted m @ [(''disconnected'', host details)]) \<and>
     (3 \<le> attemptsSoFar m k \<longrightarrow>
        scheduledReconnects (handleDisconnect k details m) = scheduledReconnects m \<and>
        attemptsSoFar (handleDisconnect k details m) k = attemptsSoFar m k \<and>
        emitted (handleDisconnect k details m) =
          emitted m @ [(''disconnected'', host details), (''reconnectFailed'', host details)] \<and>
        (list_all (\<lambda>e. \<not> isReady e) es \<longrightarrow>
           scheduledReconnects (foldl (sshStep k details) (handleDisconnect k details m) es) =
             scheduledReconnects m))"
proof (intro conjI impI)
  assume a: "attemptsSoFar m k < 3"
  note f = handleDisconnect_below_limit[OF assms a, of details]
  show "scheduledReconnects (handleDisconnect k details m) =
          scheduledReconnects m @ [(now m + 2000, k)]" by (rule f(1))
  show "attemptsSoFar (handleDisconnect k details m) k = attemptsSoFar m k + 1"
    by (simp add: attemptsSoFar_def[of "handleDisconnect k details m"] f(2))
  show "emitted (handleDisconnect k details m) = emitted m @ [(''disconnected'', host details)]"
    by (rule f(3))
next
  assume a: "3 \<le> attemptsSoFar m k"
  note f = handleDisconnect_at_limit[OF assms a, of details]
  show "scheduledReconnects (handleDisconnect k details m) = scheduledReconnects m" by (rule f(1))
  show same: "attemptsSoFar (handleDisconnect k details m) k = attemptsSoFar m k"
    by (simp add: attemptsSoFar_def f(2))
  show "emitted (handleDisconnect k details m) =
          emitted m @ [(''disconnected'', host details), (''reconnectFailed'', host details)]"
    by (rule f(3))
  assume es: "list_all (\<lambda>e. \<not> isReady e) es"
  from a same have "3 \<le> attemptsSoFar (handleDisconnect k details m) k" by simp
  from exhausted_run[OF f(4) this es, of details] f(1)
  show "scheduledReconnects (foldl (sshStep k details) (handleDisconnect k details m) es) =
          scheduledReconnects m" by simp
qed

text \<open>
  The scenario of the specification: a connected session whose client closes, and
  whose three reconnections fail, each with an error and a close. The first close
  schedules one reconnection and counts it; after the third, the next close emits
  \<^verbatim>\<open>reconnectFailed\<close>, and further errors and closes schedule nothing.
\<close>

theorem reconnection_is_bounded_witness:
  "attemptsSoFar (connectReady ''u@h:22''
       \<lparr>host = ''dev'', hostname = ''h'', port = 22, username = ''u'', privateKeyPath = None\<rparr>
       0 newManager) ''u@h:22'' < 3 \<and>
   scheduledReconnects (handleDisconnect ''u@h:22''
       \<lparr>host = ''dev'', hostname = ''h'', port = 22, username = ''u'', privateKeyPath = None\<rparr>
       (connectReady ''u@h:22''
          \<lparr>host = ''dev'', hostname = ''h'', port = 22, username = ''u'', privateKeyPath = None\<rparr>
          0 newManager)) = [(2000, ''u@h:22'')] \<and>
   attemptsSoFar (handleDisconnect ''u@h:22''
       \<lparr>host = ''dev'', hostname = ''h'', port = 22, username = ''u'', privateKeyPath = None\<rparr>
       (connectReady ''u@h:22''
          \<lparr>host = ''dev'', hostname = ''h'', port = 22, username = ''u'', privateKeyPath = None\<rparr>
          0 newManager)) ''u@h:22'' = 1 \<and>
   3 \<le> attemptsSoFar (foldl (sshStep ''u@h:22''
       \<lparr>host = ''dev'', hostname = ''h'', port = 22, username = ''u'', privateKeyPath = None\<rparr>)
       (connectReady ''u@h:22''
          \<lparr>host = ''dev'', hostname = ''h'', port = 22, username = ''u'', privateKeyPath = None\<rparr>
          0 newManager)
       [ClientClose, ClientError, ClientClose, ClientError, ClientClose, ClientError]) ''u@h:22'' \<and>
   emitted (handleDisconnect ''u@h:22''
       \<lparr>host = ''dev'', hostname = ''h'', port = 22, username = ''u'', privateKeyPath = None\<rparr>
       (foldl (sshStep ''u@h:22''
          \<lparr>host = ''dev'', hostname = ''h'', port = 22, username = ''u'', privateKeyPath = None\<rparr>)
          (connectReady ''u@h:22''
             \<lparr>host = ''dev'', hostname = ''h'', port = 22, username = ''u'', privateKeyPath = None\<rparr>
             0 newManager)
          [ClientClose, ClientError, ClientClose, ClientError, ClientClose, ClientError])) =
     [(''disconnected'', ''dev''), (''disconnected'', ''dev''), (''disconnected'', ''dev''),
      (''disconnected'', ''dev''), (''reconnectFailed'', ''dev'')] \<and>
   scheduledReconnects (foldl (sshStep ''u@h:22''
       \<lparr>host = ''dev'', hostname = ''h'', port = 22, username = ''u'', privateKeyPath = None\<rparr>)
       (handleDisconnect ''u@h:22''
          \<lparr>host = ''dev'', hostname = ''h'', port = 22, username = ''u'', privateKeyPath = None\<rparr>
          (foldl (sshStep ''u@h:22''
             \<lparr>host = ''dev'', hostname = ''h'', port = 22, username = ''u'', privateKeyPath = None\<rparr>)
             (connectReady ''u@h:22''
                \<lparr>host = ''dev'', hostname = ''h'', port = 22, username = ''u'', privateKeyPath = None\<rparr>
                0 newManager)
             [ClientClose, ClientError, ClientClose, ClientError, ClientClose, ClientError]))
       [ClientError, ClientClose, ClientClose]) =
     [(2000, ''u@h:22''), (2000, ''u@h:22''), (2000, ''u@h:22'')]"
proof -
  let ?d = "\<lparr>host = ''dev'', hostname = ''h'', port = 22, username = ''u'', privateKeyPath = None\<rparr>"
  let ?m0 = "connectReady ''u@h:22'' ?d 0 newManager"
  let ?m3 = "foldl (sshStep ''u@h:22'' ?d) ?m0
       [ClientClose, ClientError, ClientClose, ClientError, ClientClose, ClientError]"
  have ex0: "sessions ?m0 ''u@h:22'' \<noteq> None"
    by (simp add: connectReady_def newManager_def)
  have a0: "attemptsSoFar ?m0 ''u@h:22'' = 0"
    by (simp add: connectReady_def newManager_def attemptsSoFar_def)
  have n0: "now ?m0 = 0" "scheduledReconnects ?m0 = []"
    by (simp_all add: connectReady_def newManager_def)
  have m3: "sessions ?m3 ''u@h:22'' \<noteq> None" "attemptsSoFar ?m3 ''u@h:22'' = 3"
    "scheduledReconnects ?m3 = [(2000, ''u@h:22''), (2000, ''u@h:22''), (2000, ''u@h:22'')]"
    "emitted ?m3 = [(''disconnected'', ''dev''), (''disconnected'', ''dev''), (''disconnected'', ''dev'')]"
    by (simp_all add: connectReady_def newManager_def handleDisconnect_def attemptReconnect_def
          emit_def updateSessionState_def connectError_def attemptsSoFar_def
          maxReconnectAttempts_def reconnectDelay_def)
  have quiet: "list_all (\<lambda>e. \<not> isReady e) [ClientError, ClientClose, ClientClose]"
    by (simp add: isReady_def)
  note T0 = reconnection_is_bounded[OF ex0, of ?d "[]"]
  note T3 = reconnection_is_bounded[OF m3(1), of ?d "[ClientError, ClientClose, ClientClose]"]
  from T0 a0 n0 have first:
    "scheduledReconnects (handleDisconnect ''u@h:22'' ?d ?m0) = [(2000, ''u@h:22'')]"
    "attemptsSoFar (handleDisconnect ''u@h:22'' ?d ?m0) ''u@h:22'' = 1"
    by simp_all
  from T3 m3 quiet have last:
    "emitted (handleDisconnect ''u@h:22'' ?d ?m3) =
       [(''disconnected'', ''dev''), (''disconnected'', ''dev''), (''disconnected'', ''dev''),
        (''disconnected'', ''dev''), (''reconnectFailed'', ''dev'')]"
    "scheduledReconnects (foldl (sshStep ''u@h:22'' ?d) (handleDisconnect ''u@h:22'' ?d ?m3)
       [ClientError, ClientClose, ClientClose]) =
     [(2000, ''u@h:22''), (2000, ''u@h:22''), (2000, ''u@h:22'')]"
    by simp_all
  from a0 first m3(2) last show ?thesis by simp
qed

section \<open>Path mapping\<close>








section \<open>Breakpoint requests\<close>

subsection \<open>One awaited command\<close>

lemma awaitGDBCommand_result:
  assumes "gdbChannel s"
  shows "fst (awaitGDBCommand gdb c s) = gdb (tokenCounter s) c"
    and "tokenCounter (snd (awaitGDBCommand gdb c s)) = Suc (tokenCounter s)"
    and "commandLog (snd (awaitGDBCommand gdb c s)) = commandLog s @ [(tokenCounter s, c)]"
    and "gdbBreakpoints (snd (awaitGDBCommand gdb c s)) = gdbBreakpoints s"
    and "gdbChannel (snd (awaitGDBCommand gdb c s))"
  using assms
  by (auto simp: awaitGDBCommand_def sendGDBCommand_def resolve_def reject_def
        split: sum.splits)

lemma awaitGDBCommand_bindings:
  "gdbBreakpoints (snd (awaitGDBCommand gdb c s)) = gdbBreakpoints s"
  by (auto simp: awaitGDBCommand_def sendGDBCommand_def resolve_def reject_def
        split: sum.splits)

lemma rememberGdbBreakpoint_fields:
  "tokenCounter (rememberGdbBreakpoint path ln gdbId s) = tokenCounter s"
  "commandLog (rememberGdbBreakpoint path ln gdbId s) = commandLog s"
  "gdbChannel (rememberGdbBreakpoint path ln gdbId s) = gdbChannel s"
  "fileBindings (rememberGdbBreakpoint path (Some l) gdbId s) path =
     jsMapSet l gdbId (fileBindings s path)"
  by (simp_all add: rememberGdbBreakpoint_def fileBindings_def split: option.splits)

subsection \<open>The table of one file\<close>

lemma jsMapSet_keys: "set (map fst (jsMapSet k v fb)) = insert k (set (map fst fb))"
proof (induction fb)
  case Nil
  show ?case by simp
next
  case (Cons e fb)
  obtain k' v' where e: "e = (k', v')" by (cases e)
  show ?case
  proof (cases "k' = k")
    case True
    with e show ?thesis by simp
  next
    case False
    with e Cons.IH show ?thesis by (simp add: insert_commute)
  qed
qed

lemma jsMapSet_distinct: "distinct (map fst fb) \<Longrightarrow> distinct (map fst (jsMapSet k v fb))"
proof (induction fb)
  case Nil
  show ?case by simp
next
  case (Cons e fb)
  obtain k' v' where e: "e = (k', v')" by (cases e)
  from Cons.prems e have fresh: "k' \<notin> set (map fst fb)" and d: "distinct (map fst fb)"
    by simp_all
  show ?case
  proof (cases "k' = k")
    case True
    with fresh d e show ?thesis by simp
  next
    case False
    with fresh have "k' \<notin> set (map fst (jsMapSet k v fb))"
      unfolding jsMapSet_keys by simp
    with Cons.IH[OF d] False e show ?thesis by simp
  qed
qed

lemma bindReply_distinct: "distinct (map fst fb) \<Longrightarrow> distinct (map fst (bindReply fb lr))"
  by (simp add: bindReply_def jsMapSet_distinct split: sum.splits option.splits)

lemma foldl_bindReply_distinct:
  "distinct (map fst fb) \<Longrightarrow> distinct (map fst (foldl bindReply fb lrs))"
  by (induction lrs arbitrary: fb) (simp_all add: bindReply_distinct)

subsection \<open>The two loops\<close>

lemma deleteLoop_succeeds:
  assumes "gdbChannel s" "deletesSucceed gdb (tokenCounter s) ids"
  shows "fst (deleteLoop gdb ids s) = Inr () \<and>
         tokenCounter (snd (deleteLoop gdb ids s)) = tokenCounter s + length ids \<and>
         commandLog (snd (deleteLoop gdb ids s)) =
           commandLog s @ numbered (tokenCounter s) (map deleteCommand ids) \<and>
         gdbBreakpoints (snd (deleteLoop gdb ids s)) = gdbBreakpoints s \<and>
         gdbChannel (snd (deleteLoop gdb ids s))"
  using assms
proof (induction ids arbitrary: s)
  case Nil
  then show ?case by simp
next
  case (Cons gdbId ids)
  let ?a = "awaitGDBCommand gdb (deleteCommand gdbId) s"
  note r = awaitGDBCommand_result[OF Cons.prems(1), of gdb "deleteCommand gdbId"]
  from Cons.prems(2) r(1) obtain rec where rec: "fst ?a = Inr rec"
    by (cases "gdb (tokenCounter s) (deleteCommand gdbId)") auto
  then have step: "deleteLoop gdb (gdbId # ids) s = deleteLoop gdb ids (snd ?a)"
    by (cases ?a) simp
  from Cons.prems(2) r(2) have "deletesSucceed gdb (tokenCounter (snd ?a)) ids" by simp
  from Cons.IH[OF r(5) this] show ?case
    unfolding step by (simp add: r)
qed

lemma insertLoop_result:
  assumes "gdbChannel s"
  shows "fst (insertLoop gdb path rp ls bs s) =
           bs @ map2 verdict ls (insertReplies gdb (tokenCounter s) rp ls) \<and>
         tokenCounter (snd (insertLoop gdb path rp ls bs s)) = tokenCounter s + length ls \<and>
         commandLog (snd (insertLoop gdb path rp ls bs s)) =
           commandLog s @ numbered (tokenCounter s) (map (insertCommand rp) ls) \<and>
         fileBindings (snd (insertLoop gdb path rp ls bs s)) path =
           foldl bindReply (fileBindings s path)
             (zip ls (insertReplies gdb (tokenCounter s) rp ls))"
  using assms
proof (induction ls arbitrary: bs s)
  case Nil
  then show ?case by simp
next
  case (Cons l ls)
  let ?a = "awaitGDBCommand gdb (insertCommand rp l) s"
  let ?reply = "gdb (tokenCounter s) (insertCommand rp l)"
  note r = awaitGDBCommand_result[OF Cons.prems, of gdb "insertCommand rp l"]
  have fb: "fileBindings (snd ?a) path = fileBindings s path"
    by (simp add: fileBindings_def r(4))
  show ?case
  proof (cases ?reply)
    case (Inl e)
    with r(1) have step: "insertLoop gdb path rp (l # ls) bs s =
        insertLoop gdb path rp ls (bs @ [Breakpoint False l None]) (snd ?a)"
      by (cases ?a) simp
    from Cons.IH[OF r(5), of "bs @ [Breakpoint False l None]"] Inl show ?thesis
      unfolding step by (simp add: r fb verdict_def bindReply_def)
  next
    case (Inr rec)
    show ?thesis
    proof (cases "getGdbBreakpointId rec")
      case None
      with Inr r(1) have step: "insertLoop gdb path rp (l # ls) bs s =
          insertLoop gdb path rp ls (bs @ [Breakpoint True l None]) (snd ?a)"
        by (cases ?a) simp
      from Cons.IH[OF r(5), of "bs @ [Breakpoint True l None]"] Inr None show ?thesis
        unfolding step by (simp add: r fb verdict_def bindReply_def)
    next
      case (Some gdbId)
      let ?s1 = "rememberGdbBreakpoint path (Some l) gdbId (snd ?a)"
      from Some Inr r(1) have step: "insertLoop gdb path rp (l # ls) bs s =
          insertLoop gdb path rp ls (bs @ [Breakpoint True l (Some gdbId)]) ?s1"
        by (cases ?a) simp
      have ch: "gdbChannel ?s1" by (simp add: rememberGdbBreakpoint_fields r(5))
      from Cons.IH[OF ch, of "bs @ [Breakpoint True l (Some gdbId)]"] Inr Some show ?thesis
        unfolding step by (simp add: rememberGdbBreakpoint_fields r fb verdict_def bindReply_def)
    qed
  qed
qed

subsection \<open>No line is bound twice\<close>

lemma bindingsDistinct_remember:
  "bindingsDistinct s \<Longrightarrow> bindingsDistinct (rememberGdbBreakpoint path ln gdbId s)"
  by (auto simp: bindingsDistinct_def rememberGdbBreakpoint_def jsMapSet_distinct
        split: option.splits)

lemma bindingsDistinct_await:
  "bindingsDistinct s \<Longrightarrow> bindingsDistinct (snd (awaitGDBCommand gdb c s))"
  by (simp add: bindingsDistinct_def awaitGDBCommand_bindings)

lemma bindingsDistinct_deleteLoop:
  "bindingsDistinct s \<Longrightarrow> bindingsDistinct (snd (deleteLoop gdb ids s))"
proof (induction ids arbitrary: s)
  case Nil
  then show ?case by simp
next
  case (Cons gdbId ids)
  from Cons.IH[OF bindingsDistinct_await[OF Cons.prems, of gdb "deleteCommand gdbId"]]
    bindingsDistinct_await[OF Cons.prems, of gdb "deleteCommand gdbId"]
  show ?case by (auto split: prod.splits sum.splits)
qed

lemma bindingsDistinct_insertLoop:
  "bindingsDistinct s \<Longrightarrow> bindingsDistinct (snd (insertLoop gdb path rp ls bs s))"
proof (induction ls arbitrary: bs s)
  case Nil
  then show ?case by simp
next
  case (Cons l ls)
  note a = bindingsDistinct_await[OF Cons.prems, of gdb "insertCommand rp l"]
  show ?case
    using Cons.IH[OF a] Cons.IH[OF bindingsDistinct_remember[OF a]]
    by (auto split: prod.splits sum.splits option.splits)
qed

lemma bindingsDistinct_clearExisting:
  assumes "bindingsDistinct s" shows "bindingsDistinct (snd (clearExisting gdb path s))"
proof (cases "gdbBreakpoints s path")
  case None
  with assms show ?thesis by (simp add: clearExisting_def)
next
  case (Some existing)
  note d = bindingsDistinct_deleteLoop[OF assms, of gdb "map snd existing"]
  then have "bindingsDistinct
      (snd (deleteLoop gdb (map snd existing) s)
         \<lparr>gdbBreakpoints := (gdbBreakpoints (snd (deleteLoop gdb (map snd existing) s)))(path := None)\<rparr>)"
    by (simp add: bindingsDistinct_def)
  with d Some show ?thesis
    by (auto simp: clearExisting_def split: prod.splits sum.splits)
qed

lemma bindingsDistinct_only_bindings:
  "gdbBreakpoints s' = gdbBreakpoints s \<Longrightarrow> bindingsDistinct s' = bindingsDistinct s"
  by (simp add: bindingsDistinct_def)

lemma bindingsDistinct_setBreakpointsRequest:
  assumes "bindingsDistinct s"
  shows "bindingsDistinct (snd (setBreakpointsRequest gdb args s))"
proof (cases "\<not> truthy (sourcePath args) \<or> \<not> gdbChannel s")
  case True
  have "bindingsDistinct (s\<lparr>pendingBreakpoints := x\<rparr>)" for x
    using assms by (simp add: bindingsDistinct_def)
  with True assms show ?thesis
    by (auto simp: setBreakpointsRequest_def split: option.splits)
next
  case False
  let ?path = "the (sourcePath args)"
  let ?ls = "case requestedLines args of None \<Rightarrow> [] | Some ls \<Rightarrow> ls"
  obtain r1 s1 where c: "clearExisting gdb ?path s = (r1, s1)"
    by (cases "clearExisting gdb ?path s")
  from bindingsDistinct_clearExisting[OF assms, of gdb ?path] c
  have d1: "bindingsDistinct s1" by simp
  show ?thesis
  proof (cases r1)
    case (Inl e)
    with False c d1 show ?thesis by (simp add: setBreakpointsRequest_def)
  next
    case (Inr u)
    obtain bs s2 where i: "insertLoop gdb ?path (remotePathOf s ?path) ?ls [] s1 = (bs, s2)"
      by (cases "insertLoop gdb ?path (remotePathOf s ?path) ?ls [] s1")
    from bindingsDistinct_insertLoop[OF d1, of gdb ?path "remotePathOf s ?path" ?ls "[]"] i
    have "bindingsDistinct s2" by simp
    then have "bindingsDistinct (s2\<lparr>breakpoints := (breakpoints s2)(?path \<mapsto> bs)\<rparr>)"
      by (simp add: bindingsDistinct_def)
    with False c Inr i show ?thesis by (simp add: setBreakpointsRequest_def)
  qed
qed

subsection \<open>The claim about the breakpoint handler\<close>

lemma clearExisting_succeeds:
  assumes "gdbChannel s" "gdbBreakpoints s path = Some existing"
    and "deletesSucceed gdb (tokenCounter s) (map snd existing)"
  shows "fst (clearExisting gdb path s) = Inr () \<and>
         tokenCounter (snd (clearExisting gdb path s)) = tokenCounter s + length existing \<and>
         commandLog (snd (clearExisting gdb path s)) =
           commandLog s @ numbered (tokenCounter s) (map deleteCommand (map snd existing)) \<and>
         fileBindings (snd (clearExisting gdb path s)) path = [] \<and>
         gdbChannel (snd (clearExisting gdb path s))"
proof -
  obtain r1 s1 where d: "deleteLoop gdb (map snd existing) s = (r1, s1)"
    by (cases "deleteLoop gdb (map snd existing) s")
  from deleteLoop_succeeds[OF assms(1,3)] d
  have r1: "r1 = Inr ()" and f: "tokenCounter s1 = tokenCounter s + length existing"
    "commandLog s1 = commandLog s @ numbered (tokenCounter s) (map deleteCommand (map snd existing))"
    "gdbChannel s1"
    by simp_all
  from assms(2) d r1 have "clearExisting gdb path s =
      (Inr (), s1\<lparr>gdbBreakpoints := (gdbBreakpoints s1)(path := None)\<rparr>)"
    by (simp add: clearExisting_def)
  with f show ?thesis by (simp add: fileBindings_def)
qed

text \<open>
  C7, as the claim states it, fails: an insert that succeeds is reported verified also
  when its result gives no id, and then no binding is recorded. With line 10 of
  \<^verbatim>\<open>t.c\<close> bound to id 1, a request for line 20 whose insert is answered by a plain
  \<^verbatim>\<open>^done\<close> sends the delete and the insert, reports line 20 verified, and leaves the
  file without a binding.
\<close>

theorem verified_insert_without_binding:
  "fst (setBreakpointsRequest
          (\<lambda>tok c. Inr \<lparr>rtype = Result, token = Some tok, klass = Some ''done'',
                         results = Some [], outputText = None\<rparr>)
          \<lparr>sourcePath = Some ''t.c'', requestedLines = Some [20]\<rparr>
          (newSession\<lparr>gdbChannel := True, gdbBreakpoints := [''t.c'' \<mapsto> [(10, 1)]]\<rparr>)) =
     Inr [Breakpoint True 20 None] \<and>
   commandLog (snd (setBreakpointsRequest
          (\<lambda>tok c. Inr \<lparr>rtype = Result, token = Some tok, klass = Some ''done'',
                         results = Some [], outputText = None\<rparr>)
          \<lparr>sourcePath = Some ''t.c'', requestedLines = Some [20]\<rparr>
          (newSession\<lparr>gdbChannel := True, gdbBreakpoints := [''t.c'' \<mapsto> [(10, 1)]]\<rparr>))) =
     [(1000, ''break-delete 1''), (1001, ''break-insert t.c:20'')] \<and>
   gdbBreakpoints (snd (setBreakpointsRequest
          (\<lambda>tok c. Inr \<lparr>rtype = Result, token = Some tok, klass = Some ''done'',
                         results = Some [], outputText = None\<rparr>)
          \<lparr>sourcePath = Some ''t.c'', requestedLines = Some [20]\<rparr>
          (newSession\<lparr>gdbChannel := True, gdbBreakpoints := [''t.c'' \<mapsto> [(10, 1)]]\<rparr>)))
     ''t.c'' = None"
  by (simp add: setBreakpointsRequest_def truthy_def newSession_def clearExisting_def
        awaitGDBCommand_def sendGDBCommand_def resolve_def remotePathOf_def
        getGdbBreakpointId_def findResult_def deleteCommand_def insertCommand_def
        showInt_def showNat.simps digitChar_def)

text \<open>
  C7, amended. When breakpoints are set for a file that has recorded bindings and every
  \<^verbatim>\<open>break-delete\<close> succeeds, the handler sends one \<^verbatim>\<open>break-delete\<close> per recorded id,
  in the order of the table, then one \<^verbatim>\<open>break-insert\<close> per requested line, in order,
  with consecutive tokens. The response lists the requested lines: unverified where the
  insert was rejected, verified where it was resolved, with the id where the result's
  \<^verbatim>\<open>bkpt\<close> (a tuple, or a list with a tuple) has a \<^verbatim>\<open>number\<close> that reads as an
  integer. The bindings of the file afterwards are those of the inserts that gave an
  id and nothing of the old table; a line requested twice keeps its last id. Whatever
  the debugger answers, no file ever binds a line twice.
\<close>

theorem setBreakpoints_replaces_bindings:
  assumes "bindingsDistinct s"
  shows
    "bindingsDistinct (snd (setBreakpointsRequest gdb args s)) \<and>
     (gdbChannel s \<and> sourcePath args = Some path \<and> path \<noteq> [] \<and>
      gdbBreakpoints s path = Some existing \<and> requestedLines args = Some ls \<and>
      deletesSucceed gdb (tokenCounter s) (map snd existing) \<longrightarrow>
        fst (setBreakpointsRequest gdb args s) =
          Inr (map2 verdict ls
                 (insertReplies gdb (tokenCounter s + length existing) (remotePathOf s path) ls)) \<and>
        commandLog (snd (setBreakpointsRequest gdb args s)) =
          commandLog s @
          numbered (tokenCounter s) (map deleteCommand (map snd existing)) @
          numbered (tokenCounter s + length existing) (map (insertCommand (remotePathOf s path)) ls) \<and>
        fileBindings (snd (setBreakpointsRequest gdb args s)) path =
          foldl bindReply []
            (zip ls (insertReplies gdb (tokenCounter s + length existing) (remotePathOf s path) ls)))"
proof (intro conjI impI)
  show "bindingsDistinct (snd (setBreakpointsRequest gdb args s))"
    by (rule bindingsDistinct_setBreakpointsRequest[OF assms])
next
  assume a: "gdbChannel s \<and> sourcePath args = Some path \<and> path \<noteq> [] \<and>
      gdbBreakpoints s path = Some existing \<and> requestedLines args = Some ls \<and>
      deletesSucceed gdb (tokenCounter s) (map snd existing)"
  then have ch: "gdbChannel s" and ex: "gdbBreakpoints s path = Some existing"
    and del: "deletesSucceed gdb (tokenCounter s) (map snd existing)"
    and tr: "truthy (sourcePath args)" and p: "the (sourcePath args) = path"
    and rl: "requestedLines args = Some ls"
    by (simp_all add: truthy_def)
  obtain r1 s1 where c: "clearExisting gdb path s = (r1, s1)"
    by (cases "clearExisting gdb path s")
  from clearExisting_succeeds[OF ch ex del] c
  have r1: "r1 = Inr ()" and f1: "tokenCounter s1 = tokenCounter s + length existing"
    "commandLog s1 =
       commandLog s @ numbered (tokenCounter s) (map deleteCommand (map snd existing))"
    "fileBindings s1 path = []" "gdbChannel s1"
    by simp_all
  obtain bs s2 where i: "insertLoop gdb path (remotePathOf s path) ls [] s1 = (bs, s2)"
    by (cases "insertLoop gdb path (remotePathOf s path) ls [] s1")
  from insertLoop_result[OF f1(4), of gdb path "remotePathOf s path" ls "[]"] i f1
  have f2: "bs = map2 verdict ls
        (insertReplies gdb (tokenCounter s + length existing) (remotePathOf s path) ls)"
    "commandLog s2 =
       commandLog s @ numbered (tokenCounter s) (map deleteCommand (map snd existing)) @
       numbered (tokenCounter s + length existing) (map (insertCommand (remotePathOf s path)) ls)"
    "fileBindings s2 path =
       foldl bindReply []
         (zip ls (insertReplies gdb (tokenCounter s + length existing) (remotePathOf s path) ls))"
    by simp_all
  have res: "setBreakpointsRequest gdb args s =
      (Inr bs, s2\<lparr>breakpoints := (breakpoints s2)(path \<mapsto> bs)\<rparr>)"
    using ch tr p rl c r1 i by (simp add: setBreakpointsRequest_def)
  show "fst (setBreakpointsRequest gdb args s) =
          Inr (map2 verdict ls
                 (insertReplies gdb (tokenCounter s + length existing) (remotePathOf s path) ls))"
    unfolding res by (simp add: f2(1))
  show "commandLog (snd (setBreakpointsRequest gdb args s)) =
          commandLog s @
          numbered (tokenCounter s) (map deleteCommand (map snd existing)) @
          numbered (tokenCounter s + length existing) (map (insertCommand (remotePathOf s path)) ls)"
    unfolding res by (simp add: f2(2))
  show "fileBindings (snd (setBreakpointsRequest gdb args s)) path =
          foldl bindReply []
            (zip ls (insertReplies gdb (tokenCounter s + length existing) (remotePathOf s path) ls))"
    unfolding res using f2(3) by (simp add: fileBindings_def)
qed

text \<open>
  The scenario of the specification, with one insert that fails: lines 10 and 20 of
  \<^verbatim>\<open>t.c\<close> are bound to ids 1 and 2, and lines 20, 30 and 40 are requested. Both old
  breakpoints are deleted, all three lines are inserted; the debugger gives ids 3 and 4
  and rejects line 40.
\<close>

theorem setBreakpoints_replaces_bindings_witness:
  "bindingsDistinct
     (newSession\<lparr>gdbChannel := True, gdbBreakpoints := [''t.c'' \<mapsto> [(10, 1), (20, 2)]]\<rparr>) \<and>
   fst (setBreakpointsRequest
          (\<lambda>tok c.
             if tok = 1002 then
               Inr \<lparr>rtype = Result, token = Some 1002, klass = Some ''done'',
                    results = Some [(''bkpt'', MITuple [(''number'', MIString ''3''),
                                                      (''line'', MIString ''20'')])],
                    outputText = None\<rparr>
             else if tok = 1003 then
               Inr \<lparr>rtype = Result, token = Some 1003, klass = Some ''done'',
                    results = Some [(''bkpt'', MITuple [(''number'', MIString ''4''),
                                                      (''line'', MIString ''30'')])],
                    outputText = None\<rparr>
             else if tok = 1004 then Inl ''No line 40 in file.''
             else Inr \<lparr>rtype = Result, token = Some tok, klass = Some ''done'',
                       results = Some [], outputText = None\<rparr>)
          \<lparr>sourcePath = Some ''t.c'', requestedLines = Some [20, 30, 40]\<rparr>
          (newSession\<lparr>gdbChannel := True, gdbBreakpoints := [''t.c'' \<mapsto> [(10, 1), (20, 2)]]\<rparr>)) =
     Inr [Breakpoint True 20 (Some 3), Breakpoint True 30 (Some 4), Breakpoint False 40 None] \<and>
   commandLog (snd (setBreakpointsRequest
          (\<lambda>tok c.
             if tok = 1002 then
               Inr \<lparr>rtype = Result, token = Some 1002, klass = Some ''done'',
                    results = Some [(''bkpt'', MITuple [(''number'', MIString ''3''),
                                                      (''line'', MIString ''20'')])],
                    outputText = None\<rparr>
             else if tok = 1003 then
               Inr \<lparr>rtype = Result, token = Some 1003, klass = Some ''done'',
                    results = Some [(''bkpt'', MITuple [(''number'', MIString ''4''),
                                                      (''line'', MIString ''30'')])],
                    outputText = None\<rparr>
             else if tok = 1004 then Inl ''No line 40 in file.''
             else Inr \<lparr>rtype = Result, token = Some tok, klass = Some ''done'',
                       results = Some [], outputText = None\<rparr>)
          \<lparr>sourcePath = Some ''t.c'', requestedLines = Some [20, 30, 40]\<rparr>
          (newSession\<lparr>gdbChannel := True, gdbBreakpoints := [''t.c'' \<mapsto> [(10, 1), (20, 2)]]\<rparr>))) =
     [(1000, ''break-delete 1''), (1001, ''break-delete 2''), (1002, ''break-insert t.c:20''),
      (1003, ''break-insert t.c:30''), (1004, ''break-insert t.c:40'')] \<and>
   fileBindings (snd (setBreakpointsRequest
          (\<lambda>tok c.
             if tok = 1002 then
               Inr \<lparr>rtype = Result, token = Some 1002, klass = Some ''done'',
                    results = Some [(''bkpt'', MITuple [(''number'', MIString ''3''),
                                                      (''line'', MIString ''20'')])],
                    outputText = None\<rparr>
             else if tok = 1003 then
               Inr \<lparr>rtype = Result, token = Some 1003, klass = Some ''done'',
                    results = Some [(''bkpt'', MITuple [(''number'', MIString ''4''),
                                                      (''line'', MIString ''30'')])],
                    outputText = None\<rparr>
             else if tok = 1004 then Inl ''No line 40 in file.''
             else Inr \<lparr>rtype = Result, token = Some tok, klass = Some ''done'',
                       results = Some [], outputText = None\<rparr>)
          \<lparr>sourcePath = Some ''t.c'', requestedLines = Some [20, 30, 40]\<rparr>
          (newSession\<lparr>gdbChannel := True, gdbBreakpoints := [''t.c'' \<mapsto> [(10, 1), (20, 2)]]\<rparr>)))
     ''t.c'' = [(20, 3), (30, 4)]"
proof -
  let ?s = "newSession\<lparr>gdbChannel := True, gdbBreakpoints := [''t.c'' \<mapsto> [(10, 1), (20, 2)]]\<rparr>"
  let ?r3 = "\<lparr>rtype = Result, token = Some 1002, klass = Some ''done'',
                    results = Some [(''bkpt'', MITuple [(''number'', MIString ''3''),
                                                      (''line'', MIString ''20'')])],
                    outputText = None\<rparr>"
  let ?r4 = "\<lparr>rtype = Result, token = Some 1003, klass = Some ''done'',
                    results = Some [(''bkpt'', MITuple [(''number'', MIString ''4''),
                                                      (''line'', MIString ''30'')])],
                    outputText = None\<rparr>"
  let ?gdb = "\<lambda>tok c.
             if tok = 1002 then Inr ?r3
             else if tok = 1003 then Inr ?r4
             else if tok = 1004 then Inl ''No line 40 in file.''
             else Inr \<lparr>rtype = Result, token = Some tok, klass = Some ''done'',
                       results = Some [], outputText = None\<rparr>"
  let ?args = "\<lparr>sourcePath = Some ''t.c'', requestedLines = Some [20, 30, 40]\<rparr>"
  have inv: "bindingsDistinct ?s"
    by (simp add: bindingsDistinct_def newSession_def)
  have id3: "getGdbBreakpointId ?r3 = Some 3" and id4: "getGdbBreakpointId ?r4 = Some 4"
    by (simp_all add: getGdbBreakpointId_def getGdbBreakpointNumberFromTuple_def findResult_def
          getStringValue_def truthy_def parseIntJS_def startsWithChar_def isTrimSpace_def
          isDigit_def charCode_def digitsToNat_def)
  have hyp: "gdbChannel ?s \<and> sourcePath ?args = Some ''t.c'' \<and> ''t.c'' \<noteq> [] \<and>
      gdbBreakpoints ?s ''t.c'' = Some [(10, 1), (20, 2)] \<and>
      requestedLines ?args = Some [20, 30, 40] \<and>
      deletesSucceed ?gdb (tokenCounter ?s) (map snd [(10, 1), (20, 2)])"
    by (simp add: newSession_def)
  have t: "tokenCounter ?s = 1000" "commandLog ?s = []" "remotePathOf ?s ''t.c'' = ''t.c''"
    by (simp_all add: newSession_def remotePathOf_def)
  have cmds: "deleteCommand 1 = ''break-delete 1''" "deleteCommand 2 = ''break-delete 2''"
    "insertCommand ''t.c'' 20 = ''break-insert t.c:20''"
    "insertCommand ''t.c'' 30 = ''break-insert t.c:30''"
    "insertCommand ''t.c'' 40 = ''break-insert t.c:40''"
    by (simp_all add: deleteCommand_def insertCommand_def showInt_def showNat.simps digitChar_def)
  note T = setBreakpoints_replaces_bindings[OF inv, of ?gdb ?args "''t.c''" "[(10, 1), (20, 2)]"
      "[20, 30, 40]"]
  from T hyp have
    "fst (setBreakpointsRequest ?gdb ?args ?s) =
       Inr (map2 verdict [20, 30, 40] (insertReplies ?gdb 1002 ''t.c'' [20, 30, 40]))"
    "commandLog (snd (setBreakpointsRequest ?gdb ?args ?s)) =
       numbered 1000 (map deleteCommand [1, 2]) @
       numbered 1002 (map (insertCommand ''t.c'') [20, 30, 40])"
    "fileBindings (snd (setBreakpointsRequest ?gdb ?args ?s)) ''t.c'' =
       foldl bindReply [] (zip [20, 30, 40] (insertReplies ?gdb 1002 ''t.c'' [20, 30, 40]))"
    by (simp_all add: t)
  then show ?thesis
    using inv by (simp add: cmds verdict_def bindReply_def id3 id4)
qed

end

